theory Spec2Isabelle
  imports Complex_Main
begin

section \<open>The force/torque sensor plugin \<open>GazeboRosFT\<close>\<close>

text \<open>
  A shallow embedding of \<^verbatim>\<open>gazebo_plugins/src/gazebo_ros_ft_sensor.cpp\<close>. Every member
  function of the class becomes a function from the instance's fields to the new fields
  and the list of calls it makes on its collaborators (the simulation engine, the ROS
  node, the callback queue, the delivery thread), in the order of the source.

  The rate control computes with numbers of type \<^verbatim>\<open>double\<close>: they are IEEE 754
  binary64 values here, every operation rounded to nearest, ties to even. The force and
  torque components, which the code only copies, are of an arbitrary type \<open>'a\<close>.
\<close>

subsection \<open>Data\<close>

subsubsection \<open>Doubles\<close>

text \<open>
  A double is a finite number, an infinity or not a number. The sign of zero is not
  modelled: nothing below depends on it.
\<close>

datatype double = Finite real | PlusInf | MinusInf | NaN

definition pow2 :: "int \<Rightarrow> real" where
  "pow2 e = (if 0 \<le> e then 2 ^ nat e else 1 / 2 ^ nat (- e))"

text \<open>Rounding to the nearest integer, a tie to the even one.\<close>

definition round_even :: "real \<Rightarrow> int" where
  "round_even r =
     (let f = \<lfloor>r\<rfloor>; d = r - of_int f
      in if d < 1 / 2 then f else if 1 / 2 < d then f + 1 else if even f then f else f + 1)"

text \<open>
  The exponent of the binade of \<open>x\<close>, not below that of the subnormal numbers, and the
  nearest number with 53 significant bits at that exponent.
\<close>

definition binade :: "real \<Rightarrow> int" where
  "binade x = max \<lfloor>log 2 \<bar>x\<bar>\<rfloor> (- 1022)"

definition round_double :: "real \<Rightarrow> real" where
  "round_double x =
     (if x = 0 then 0
      else of_int (round_even (x / pow2 (binade x - 52))) * pow2 (binade x - 52))"

text \<open>The result of an operation whose exact value is \<open>x\<close>: rounded, or an infinity.\<close>

definition fl :: "real \<Rightarrow> double" where
  "fl x =
     (let y = round_double x
      in if 2 ^ 1024 \<le> y then PlusInf else if y \<le> - (2 ^ 1024) then MinusInf else Finite y)"

text \<open>The comparisons \<^verbatim>\<open>d > 0\<close> and \<^verbatim>\<open>a < b\<close>, and the quotient \<^verbatim>\<open>1.0 / d\<close>.\<close>

fun gt_zero :: "double \<Rightarrow> bool" where
  "gt_zero (Finite x) = (0 < x)"
| "gt_zero PlusInf = True"
| "gt_zero MinusInf = False"
| "gt_zero NaN = False"

fun less_double :: "double \<Rightarrow> double \<Rightarrow> bool" where
  "less_double (Finite x) (Finite y) = (x < y)"
| "less_double (Finite x) PlusInf = True"
| "less_double MinusInf (Finite y) = True"
| "less_double MinusInf PlusInf = True"
| "less_double a b = False"

fun one_over :: "double \<Rightarrow> double" where
  "one_over (Finite x) = (if x = 0 then PlusInf else fl (1 / x))"
| "one_over PlusInf = Finite 0"
| "one_over MinusInf = Finite 0"
| "one_over NaN = NaN"

text \<open>The literal \<^verbatim>\<open>1e-9\<close>: the double nearest to \<open>10\<^sup>-\<^sup>9\<close>.\<close>

definition e_minus9 :: real where
  "e_minus9 = round_double (1 / 10 ^ 9)"

subsubsection \<open>Simulation time\<close>

text \<open>
  \<^verbatim>\<open>common::Time\<close> of the simulation engine: whole seconds and nanoseconds, which the
  engine keeps with \<open>0 \<le> nsec < 10\<^sup>9\<close>. The class is the engine's, not this
  plugin's; of it the plugin uses the difference of two times and \<^verbatim>\<open>Double()\<close>:

  \<^item> \<^verbatim>\<open>operator-\<close> subtracts the seconds and the nanoseconds and lets \<^verbatim>\<open>Correct()\<close> bring
    the nanoseconds back into their range, borrowing from or carrying into the seconds.
    Releases of the engine differ in how they write a negative difference (nanoseconds
    of the sign of the seconds, or never negative, as here); read as a double it is
    negative either way, and the rate control compares it only with a quotient that is
    not negative;
  \<^item> \<^verbatim>\<open>Double()\<close> is \<^verbatim>\<open>(double)sec + (double)nsec * 1e-9\<close>: the product is rounded, then
    the sum. The two members are 32-bit integers, so the conversions are exact and the
    sum is far from overflow; they are unbounded integers here.

  \<open>nanoseconds\<close> and \<open>seconds\<close> are the exact value of a time: the measure of the
  specification, not something the code computes.
\<close>

record Time =
  sec :: int
  nsec :: int

definition Correct :: "Time \<Rightarrow> Time" where
  "Correct t = \<lparr>sec = sec t + nsec t div 10 ^ 9, nsec = nsec t mod 10 ^ 9\<rparr>"

definition Time_minus :: "Time \<Rightarrow> Time \<Rightarrow> Time" where
  "Time_minus a b = Correct \<lparr>sec = sec a - sec b, nsec = nsec a - nsec b\<rparr>"

definition Double :: "Time \<Rightarrow> double" where
  "Double t =
     Finite (round_double (of_int (sec t) + round_double (of_int (nsec t) * e_minus9)))"

definition nanoseconds :: "Time \<Rightarrow> int" where
  "nanoseconds t = sec t * 10 ^ 9 + nsec t"

definition seconds :: "Time \<Rightarrow> real" where
  "seconds t = of_int (nanoseconds t) / 10 ^ 9"

text \<open>What \<^verbatim>\<open>Double()\<close> gives for a difference of \<open>n\<close> nanoseconds.\<close>

definition reading :: "int \<Rightarrow> real" where
  "reading n =
     round_double (of_int (n div 10 ^ 9) + round_double (of_int (n mod 10 ^ 9) * e_minus9))"

subsubsection \<open>Wrenches and messages\<close>

text \<open>
  A vector of three components, for \<^verbatim>\<open>math::Vector3\<close> and for the vectors of the
  message (members \<^verbatim>\<open>x\<close>, \<^verbatim>\<open>y\<close>, \<^verbatim>\<open>z\<close> in both).
\<close>

record 'a Vector3 =
  vec_x :: 'a
  vec_y :: 'a
  vec_z :: 'a

record 'a JointWrench =
  body1Force :: "'a Vector3"
  body2Force :: "'a Vector3"
  body1Torque :: "'a Vector3"
  body2Torque :: "'a Vector3"

text \<open>\<^verbatim>\<open>geometry_msgs::WrenchStamped\<close>.\<close>

record Header =
  seq :: nat
  frame_id :: string
  stamp :: Time

record 'a Wrench =
  force :: "'a Vector3"
  torque :: "'a Vector3"

record 'a WrenchStamped =
  header :: Header
  wrench :: "'a Wrench"

text \<open>
  The raw pointer \<^verbatim>\<open>rosnode_\<close>: never assigned, pointing to a live node handle, or
  pointing to one that \<^verbatim>\<open>delete\<close> has destroyed.
\<close>

datatype 'n ptr = Uninitialised | Valid 'n | Deleted

record NodeHandle =
  ns :: string
  ok :: bool

text \<open>
  \<^verbatim>\<open>boost::thread\<close>: a default-constructed object is not a thread; one that was
  started runs until its function returns and \<^verbatim>\<open>join\<close> collects it.
\<close>

datatype thread = Not_a_Thread | Running | Joined

text \<open>
  \<^verbatim>\<open>event::ConnectionPtr\<close>: null, registered with the world-update event, or
  deregistered.
\<close>

datatype connection = Null | Connected | Disconnected

text \<open>A joint of the model, with the names of the two links it connects.\<close>

record Joint =
  parent_link :: string
  child_link :: string

text \<open>
  The callbacks that the transport puts on the instance's callback queue: the two bound
  by \<^verbatim>\<open>AdvertiseOptions::create\<close> in \<^verbatim>\<open>Load\<close>.
\<close>

datatype subscriber_callback = Connect | Disconnect

text \<open>
  The fields of an instance, named as in the source without the trailing underscore.
  \<^verbatim>\<open>queue_\<close> is the pair of \<open>queue_pending\<close> and \<open>queue_enabled\<close>; \<^verbatim>\<open>pub_\<close> is
  the advertised topic, if any. \<^verbatim>\<open>model_\<close>, \<^verbatim>\<open>world_\<close>, \<^verbatim>\<open>parent_link_\<close> and
  \<^verbatim>\<open>child_link_\<close> are handles into the simulation engine: what the code reads
  through them is in \<open>host\<close> and \<open>physics\<close> below.
\<close>

record 'a GazeboRosFT =
  ft_connect_count :: int
  update_rate :: double
  last_time :: Time
  wrench_msg :: "'a WrenchStamped"
  robot_namespace :: string
  joint_name :: string
  topic_name :: string
  frame_name :: string
  joint :: "Joint option"
  rosnode :: "NodeHandle ptr"
  pub :: "string option"
  queue_pending :: "subscriber_callback list"
  queue_enabled :: bool
  callback_queue_thread :: thread
  update_connection :: connection

text \<open>
  The calls an instance makes on its collaborators. A call that takes one of the
  instance's handles carries the handle as the call finds it.
\<close>

datatype 'a call =
    ROS_FATAL
  | ROS_INFO
  | ROS_DEBUG
  | NewNodeHandle string
  | GetParam string
  | Advertise string
  | ThreadStart
  | ConnectWorldUpdateBegin
  | DisconnectWorldUpdateBegin connection
  | QueueClear
  | QueueDisable
  | NodeShutdown "NodeHandle ptr"
  | ThreadJoin thread
  | NodeDelete "NodeHandle ptr"
  | Lock
  | Publish "'a WrenchStamped"
  | Unlock

text \<open>What one simulation step lets the plugin read: the time and the joint's wrench.\<close>

record 'a physics =
  SimTime :: Time
  ForceTorque :: "'a JointWrench"

subsection \<open>Subscriber callbacks\<close>

text \<open>
  The declaration of \<^verbatim>\<open>ft_connect_count_\<close> is in the class header, which is not part of
  the source file; the count is an unbounded integer here.
\<close>

definition FTConnect :: "'a GazeboRosFT \<Rightarrow> 'a GazeboRosFT" where
  "FTConnect s = s\<lparr>ft_connect_count := ft_connect_count s + 1\<rparr>"

definition FTDisconnect :: "'a GazeboRosFT \<Rightarrow> 'a GazeboRosFT" where
  "FTDisconnect s = s\<lparr>ft_connect_count := ft_connect_count s - 1\<rparr>"

subsection \<open>The per-step update\<close>

text \<open>The condition of the rate-control \<^verbatim>\<open>if\<close>: true when the step is skipped.\<close>

definition rate_limited :: "'a GazeboRosFT \<Rightarrow> Time \<Rightarrow> bool" where
  "rate_limited s cur_time =
     (gt_zero (update_rate s) \<and>
      less_double (Double (Time_minus cur_time (last_time s))) (one_over (update_rate s)))"

text \<open>
  The assignments to \<^verbatim>\<open>wrench_msg_\<close> between \<^verbatim>\<open>lock\<close> and \<^verbatim>\<open>publish\<close>: the
  message is overwritten in place, field by field.
\<close>

definition copy_wrench :: "'a GazeboRosFT \<Rightarrow> 'a physics \<Rightarrow> 'a WrenchStamped" where
  "copy_wrench s p =
     (let w = ForceTorque p;
          force' = body2Force w;
          torque' = body2Torque w;
          m = wrench_msg s
      in m\<lparr>header := (header m)\<lparr>frame_id := frame_name s,
                                  stamp := \<lparr>sec = sec (SimTime p), nsec = nsec (SimTime p)\<rparr>\<rparr>,
           wrench := \<lparr>force = \<lparr>vec_x = vec_x force', vec_y = vec_y force', vec_z = vec_z force'\<rparr>,
                      torque = \<lparr>vec_x = vec_x torque', vec_y = vec_y torque',
                                vec_z = vec_z torque'\<rparr>\<rparr>\<rparr>)"

definition UpdateChild :: "'a physics \<Rightarrow> 'a GazeboRosFT \<Rightarrow> 'a GazeboRosFT \<times> 'a call list" where
  "UpdateChild p s =
     (let cur_time = SimTime p in
      if rate_limited s cur_time then (s, [])
      else if ft_connect_count s = 0 then (s, [])
      else
        let msg = copy_wrench s p
        in (s\<lparr>wrench_msg := msg, last_time := cur_time\<rparr>, [Lock, Publish msg, Unlock]))"

subsection \<open>The callbacks an instance receives\<close>

datatype 'a event = WorldUpdateBegin "'a physics" | Subscriber subscriber_callback

fun invoke :: "subscriber_callback \<Rightarrow> 'a GazeboRosFT \<Rightarrow> 'a GazeboRosFT" where
  "invoke Connect s = FTConnect s"
| "invoke Disconnect s = FTDisconnect s"

fun step :: "'a event \<Rightarrow> 'a GazeboRosFT \<Rightarrow> 'a GazeboRosFT \<times> 'a call list" where
  "step (WorldUpdateBegin p) s = UpdateChild p s"
| "step (Subscriber c) s = (invoke c s, [])"

fun run :: "'a event list \<Rightarrow> 'a GazeboRosFT \<Rightarrow> 'a GazeboRosFT \<times> 'a call list" where
  "run [] s = (s, [])"
| "run (e # es) s =
     (let (s', cs) = step e s; (s'', cs') = run es s' in (s'', cs @ cs'))"

subsection \<open>Construction and loading\<close>

text \<open>
  The constructor \<^verbatim>\<open>GazeboRosFT::GazeboRosFT\<close> (here \<open>GazeboRosFT_ctor\<close>; the destructor
  is \<open>GazeboRosFT_dtor\<close>) sets the subscriber count; members of class type are default
  constructed; \<^verbatim>\<open>rosnode_\<close> and \<^verbatim>\<open>update_rate_\<close> are left unassigned. The argument
  \<open>m\<close> is the memory the instance is built in: \<open>update_rate\<close> and the message keep
  whatever it holds.
\<close>

definition GazeboRosFT_ctor :: "'a GazeboRosFT \<Rightarrow> 'a GazeboRosFT" where
  "GazeboRosFT_ctor m =
     m\<lparr>ft_connect_count := 0,
       last_time := \<lparr>sec = 0, nsec = 0\<rparr>,
       robot_namespace := [], joint_name := [], topic_name := [], frame_name := [],
       joint := None,
       rosnode := Uninitialised,
       pub := None,
       queue_pending := [], queue_enabled := True,
       callback_queue_thread := Not_a_Thread,
       update_connection := Null\<rparr>"

text \<open>The children of the plugin's SDF element that \<^verbatim>\<open>Load\<close> looks for.\<close>

record sdf_Element =
  robotNamespace :: "string option"
  jointName :: "string option"
  topicName :: "string option"
  updateRate :: "double option"

text \<open>
  What \<^verbatim>\<open>Load\<close> asks of its surroundings: the model's joints by name, whether ROS is
  initialised, the parameter server, and \<^verbatim>\<open>tf::resolve\<close>.
\<close>

record host =
  GetJoint :: "string \<Rightarrow> Joint option"
  isInitialized :: bool
  getParam :: "string \<Rightarrow> string option"
  resolve :: "string \<Rightarrow> string \<Rightarrow> string"

definition Load :: "host \<Rightarrow> sdf_Element \<Rightarrow> 'a GazeboRosFT \<Rightarrow> 'a GazeboRosFT \<times> 'a call list" where
  "Load h e s =
     (let s1 = s\<lparr>robot_namespace :=
                   (case robotNamespace e of None \<Rightarrow> [] | Some n \<Rightarrow> n @ ''/'')\<rparr>
      in (case jointName e of
            None \<Rightarrow> (s1, [ROS_FATAL])
          | Some jn \<Rightarrow>
             (let s2 = s1\<lparr>joint_name := jn\<rparr>;
                  s3 = s2\<lparr>joint := GetJoint h (joint_name s2)\<rparr>
              in (case joint s3 of
                    None \<Rightarrow> (s3, [ROS_FATAL])
                  | Some j \<Rightarrow>
                     (let s4 = s3\<lparr>frame_name := child_link j\<rparr>
                      in (case topicName e of
                            None \<Rightarrow> (s4, [ROS_INFO, ROS_FATAL])
                          | Some tn \<Rightarrow>
                             (let s5 = s4\<lparr>topic_name := tn\<rparr>;
                                  dbg = (case updateRate e of
                                           None \<Rightarrow> [ROS_DEBUG] | Some r \<Rightarrow> []);
                                  s6 = s5\<lparr>update_rate :=
                                            (case updateRate e of None \<Rightarrow> Finite 0 | Some r \<Rightarrow> r)\<rparr>
                              in if \<not> isInitialized h then (s6, ROS_INFO # dbg @ [ROS_FATAL])
                                 else
                                  (let s7 = s6\<lparr>rosnode :=
                                                Valid \<lparr>ns = robot_namespace s6, ok = True\<rparr>\<rparr>;
                                       prefix = (case getParam h ''tf_prefix'' of
                                                   None \<Rightarrow> [] | Some v \<Rightarrow> v);
                                       s8 = s7\<lparr>frame_name :=
                                                 resolve h prefix (frame_name s7)\<rparr>;
                                       s9 = s8\<lparr>pub := Some (topic_name s8)\<rparr>;
                                       s10 = s9\<lparr>callback_queue_thread := Running\<rparr>;
                                       s11 = s10\<lparr>update_connection := Connected\<rparr>
                                   in (s11,
                                       ROS_INFO # dbg @
                                       [NewNodeHandle (robot_namespace s6), GetParam ''tf_prefix'',
                                        Advertise (topic_name s8), ThreadStart,
                                        ConnectWorldUpdateBegin])))))))))"

subsection \<open>The delivery thread\<close>

text \<open>
  \<^verbatim>\<open>queue_.callAvailable\<close>: an enabled queue invokes the callbacks that are pending, a
  disabled one returns at once.
\<close>

definition callAvailable :: "'a GazeboRosFT \<Rightarrow> 'a GazeboRosFT" where
  "callAvailable s =
     (if queue_enabled s then fold invoke (queue_pending s) (s\<lparr>queue_pending := []\<rparr>) else s)"

text \<open>
  The loop of \<^verbatim>\<open>QueueThread\<close>, as the thread that waits in \<^verbatim>\<open>join\<close> sees it: it
  returns when \<^verbatim>\<open>rosnode_->ok()\<close> is false, and has no result (\<open>None\<close>) when it runs
  forever or reads a pointer that is not valid.
\<close>

partial_function (option) QueueThread :: "'a GazeboRosFT \<Rightarrow> 'a GazeboRosFT option" where
  "QueueThread s =
     (case rosnode s of
        Valid n \<Rightarrow> if ok n then QueueThread (callAvailable s) else Some s
      | _ \<Rightarrow> None)"

declare QueueThread.simps [code]

subsection \<open>Destruction\<close>

text \<open>
  \<^verbatim>\<open>join\<close> on a running thread waits for \<^verbatim>\<open>QueueThread\<close> to return; on an object that
  is not a running thread there is nothing to wait for.
\<close>

definition join :: "'a GazeboRosFT \<Rightarrow> 'a GazeboRosFT option" where
  "join s =
     (case callback_queue_thread s of
        Running \<Rightarrow>
          (case QueueThread s of
             None \<Rightarrow> None
           | Some s' \<Rightarrow> Some (s'\<lparr>callback_queue_thread := Joined\<rparr>))
      | _ \<Rightarrow> Some s)"

text \<open>
  How a run of the destructor ends: it returns, or it makes a call that is undefined
  behaviour and goes no further, or it waits in \<^verbatim>\<open>join\<close> for ever.
\<close>

datatype 'a ending = Returns "'a GazeboRosFT" | Undefined_behaviour "'a call" | Never_returns

text \<open>
  The destructor makes its calls one after the other, each on the handle it finds in
  the field, with no test of any field. A call through \<^verbatim>\<open>rosnode_\<close> when it does not
  point to a live node handle (it was never assigned, or the node handle was deleted) is
  undefined behaviour: the run ends there. The result is the list of the calls completed
  and the ending.
\<close>

definition GazeboRosFT_dtor :: "'a GazeboRosFT \<Rightarrow> 'a call list \<times> 'a ending" where
  "GazeboRosFT_dtor s =
     (let c1 = DisconnectWorldUpdateBegin (update_connection s);
          s1 = s\<lparr>update_connection :=
                   (case update_connection s of Null \<Rightarrow> Null | _ \<Rightarrow> Disconnected)\<rparr>;
          s2 = s1\<lparr>queue_pending := []\<rparr>;
          s3 = s2\<lparr>queue_enabled := False\<rparr>
      in (case rosnode s3 of
            Valid n \<Rightarrow>
              (let c4 = NodeShutdown (Valid n);
                   s4 = s3\<lparr>rosnode := Valid (n\<lparr>ok := False\<rparr>)\<rparr>;
                   c5 = ThreadJoin (callback_queue_thread s4)
               in (case join s4 of
                     None \<Rightarrow> ([c1, QueueClear, QueueDisable, c4], Never_returns)
                   | Some s5 \<Rightarrow>
                       (case rosnode s5 of
                          Valid n' \<Rightarrow>
                            ([c1, QueueClear, QueueDisable, c4, c5, NodeDelete (Valid n')],
                             Returns (s5\<lparr>rosnode := Deleted\<rparr>))
                        | q \<Rightarrow>
                            ([c1, QueueClear, QueueDisable, c4, c5],
                             Undefined_behaviour (NodeDelete q)))))
          | q \<Rightarrow> ([c1, QueueClear, QueueDisable], Undefined_behaviour (NodeShutdown q))))"

subsection \<open>The terms of the specification\<close>

text \<open>
  The rate limiter's contract, in the words of the specification:
  \<^verbatim>\<open>shouldSample(now, configuredFrequencyHz, lastSampleTimestamp)\<close>.
\<close>

definition shouldSample :: "real \<Rightarrow> real \<Rightarrow> real \<Rightarrow> bool" where
  "shouldSample now configuredFrequencyHz lastSampleTimestamp =
     (if configuredFrequencyHz \<le> 0 then True
      else now - lastSampleTimestamp \<ge> 1 / configuredFrequencyHz)"

text \<open>
  A frequency \<open>f > 0\<close> whose period \<open>1 / f\<close> lies in the range of the normal doubles:
  \<open>2\<^sup>-\<^sup>1\<^sup>0\<^sup>2\<^sup>3 < f \<le> 2\<^sup>1\<^sup>0\<^sup>2\<^sup>2\<close>.
\<close>

definition normal_period :: "real \<Rightarrow> bool" where
  "normal_period f = (0 < f \<and> pow2 (- 1022) \<le> 1 / f \<and> 1 / f < pow2 1023)"

text \<open>The numbers of subscribe and unsubscribe events in a sequence of callbacks.\<close>

fun is_subscribe :: "'a event \<Rightarrow> bool" where
  "is_subscribe (Subscriber Connect) = True"
| "is_subscribe e = False"

fun is_unsubscribe :: "'a event \<Rightarrow> bool" where
  "is_unsubscribe (Subscriber Disconnect) = True"
| "is_unsubscribe e = False"

definition subscribes :: "'a event list \<Rightarrow> nat" where
  "subscribes es = length (filter is_subscribe es)"

definition unsubscribes :: "'a event list \<Rightarrow> nat" where
  "unsubscribes es = length (filter is_unsubscribe es)"

text \<open>
  The messages published by a list of calls, and the simulation times they carry (exact,
  in seconds).
\<close>

fun published :: "'a call list \<Rightarrow> 'a WrenchStamped list" where
  "published [] = []"
| "published (Publish m # cs) = m # published cs"
| "published (c # cs) = published cs"

definition publish_times :: "'a call list \<Rightarrow> real list" where
  "publish_times cs = map (\<lambda>m. seconds (stamp (header m))) (published cs)"

text \<open>
  \<open>separated d l ts\<close>: the times \<open>ts\<close> follow the time \<open>l\<close> and one another at
  distances of at least \<open>d\<close>.
\<close>

fun separated :: "real \<Rightarrow> real \<Rightarrow> real list \<Rightarrow> bool" where
  "separated d l [] = True"
| "separated d l (t # ts) = (l + d \<le> t \<and> separated d t ts)"

text \<open>
  The configurations on which \<^verbatim>\<open>Load\<close> gives up: no joint name, a joint name the model
  does not know, no topic name, or ROS not initialised.
\<close>

definition validation_fails :: "host \<Rightarrow> sdf_Element \<Rightarrow> bool" where
  "validation_fails h e =
     (case jointName e of
        None \<Rightarrow> True
      | Some jn \<Rightarrow> GetJoint h jn = None \<or> topicName e = None \<or> \<not> isInitialized h)"

text \<open>
  The calls that wire an instance up: creating the node handle, advertising the topic,
  starting the delivery thread, registering the per-step callback.
\<close>

fun wiring_call :: "'a call \<Rightarrow> bool" where
  "wiring_call (NewNodeHandle n) = True"
| "wiring_call (Advertise t) = True"
| "wiring_call ThreadStart = True"
| "wiring_call ConnectWorldUpdateBegin = True"
| "wiring_call c = False"

text \<open>The five teardown steps of the specification, and the step each call belongs to.\<close>

datatype teardown_step = DeregisterTick | DisableQueue | ShutdownContext | JoinThread | FreeHandles

fun step_of_call :: "'a call \<Rightarrow> teardown_step option" where
  "step_of_call (DisconnectWorldUpdateBegin c) = Some DeregisterTick"
| "step_of_call QueueClear = Some DisableQueue"
| "step_of_call QueueDisable = Some DisableQueue"
| "step_of_call (NodeShutdown q) = Some ShutdownContext"
| "step_of_call (ThreadJoin t) = Some JoinThread"
| "step_of_call (NodeDelete q) = Some FreeHandles"
| "step_of_call c = None"

definition teardown_order :: "teardown_step option list" where
  "teardown_order =
     map Some [DeregisterTick, DisableQueue, DisableQueue, ShutdownContext, JoinThread,
               FreeHandles]"

subsection \<open>A concrete instance\<close>

text \<open>
  Some memory, a configuration (at 10 Hz) and a host; \<open>loaded0\<close> is the instance
  constructed in that memory and loaded with that configuration, \<open>stopped0\<close> the same
  instance after its destructor. \<open>subscribed r\<close> is the instance loaded with the update
  rate \<open>r\<close> instead, after one subscriber has connected.
\<close>

definition memory0 :: "real GazeboRosFT" where
  "memory0 =
     \<lparr>ft_connect_count = 7, update_rate = Finite (- 3), last_time = \<lparr>sec = 5, nsec = 0\<rparr>,
      wrench_msg = \<lparr>header = \<lparr>seq = 0, frame_id = [], stamp = \<lparr>sec = 0, nsec = 0\<rparr>\<rparr>,
                    wrench = \<lparr>force = \<lparr>vec_x = 0, vec_y = 0, vec_z = 0\<rparr>,
                              torque = \<lparr>vec_x = 0, vec_y = 0, vec_z = 0\<rparr>\<rparr>\<rparr>,
      robot_namespace = [], joint_name = [], topic_name = [], frame_name = [],
      joint = None, rosnode = Uninitialised, pub = None, queue_pending = [],
      queue_enabled = True, callback_queue_thread = Not_a_Thread, update_connection = Null\<rparr>"

definition sdf0 :: sdf_Element where
  "sdf0 = \<lparr>robotNamespace = Some ''robot'', jointName = Some ''wrist'',
            topicName = Some ''ft'', updateRate = Some (Finite 10)\<rparr>"

definition host0 :: host where
  "host0 =
     \<lparr>GetJoint = (\<lambda>n. if n = ''wrist''
                       then Some \<lparr>parent_link = ''arm'', child_link = ''hand''\<rparr> else None),
      isInitialized = True,
      getParam = (\<lambda>n. None),
      resolve = (\<lambda>prefix f. if prefix = [] then f else prefix @ ''/'' @ f)\<rparr>"

definition loaded0 :: "real GazeboRosFT" where
  "loaded0 = fst (Load host0 sdf0 (GazeboRosFT_ctor memory0))"

definition stopped0 :: "real GazeboRosFT" where
  "stopped0 =
     loaded0\<lparr>update_connection := Disconnected, queue_pending := [], queue_enabled := False,
             rosnode := Deleted, callback_queue_thread := Joined\<rparr>"

text \<open>
  Two update rates that are doubles: \<open>slow_rate\<close>, whose period is exactly 1.31072 s,
  and \<open>fast_rate\<close>, the double next below 1000 (999.9999999999999).
\<close>

definition slow_rate :: real where
  "slow_rate = 3125 / 4096"

definition fast_rate :: real where
  "fast_rate = 1000 - 1 / 2 ^ 43"

definition subscribed :: "real \<Rightarrow> real GazeboRosFT" where
  "subscribed r =
     FTConnect (fst (Load host0 (sdf0\<lparr>updateRate := Some (Finite r)\<rparr>) (GazeboRosFT_ctor memory0)))"

definition physics0 :: "int \<Rightarrow> int \<Rightarrow> real physics" where
  "physics0 s n =
     \<lparr>SimTime = \<lparr>sec = s, nsec = n\<rparr>,
      ForceTorque = \<lparr>body1Force = \<lparr>vec_x = 1, vec_y = 2, vec_z = 3\<rparr>,
                     body2Force = \<lparr>vec_x = 4, vec_y = 5, vec_z = 6\<rparr>,
                     body1Torque = \<lparr>vec_x = 7, vec_y = 8, vec_z = 9\<rparr>,
                     body2Torque = \<lparr>vec_x = 10, vec_y = 11, vec_z = 12\<rparr>\<rparr>\<rparr>"

definition events0 :: "real event list" where
  "events0 = [Subscriber Connect, WorldUpdateBegin (physics0 1 0), Subscriber Connect,
              Subscriber Disconnect, Subscriber Disconnect]"

definition events1 :: "real event list" where
  "events1 = [Subscriber Connect, WorldUpdateBegin (physics0 0 100000000),
              WorldUpdateBegin (physics0 0 150000000), WorldUpdateBegin (physics0 0 200000000)]"

definition msg0 :: "real WrenchStamped" where
  "msg0 = \<lparr>header = \<lparr>seq = 0, frame_id = ''hand'', stamp = \<lparr>sec = 1, nsec = 0\<rparr>\<rparr>,
           wrench = \<lparr>force = \<lparr>vec_x = 4, vec_y = 5, vec_z = 6\<rparr>,
                     torque = \<lparr>vec_x = 10, vec_y = 11, vec_z = 12\<rparr>\<rparr>\<rparr>"

text \<open>
  Simulation steps 1 ms apart: \<open>tick_ms k\<close> is the step at \<open>k\<close> ms, \<open>ticks_ms k n\<close> the
  \<open>n\<close> steps that follow the one at \<open>k\<close> ms.
\<close>

definition tick_ms :: "nat \<Rightarrow> real physics" where
  "tick_ms k = physics0 (int k div 1000) (int k mod 1000 * 10 ^ 6)"

definition ticks_ms :: "nat \<Rightarrow> nat \<Rightarrow> real event list" where
  "ticks_ms k n = map (\<lambda>j. WorldUpdateBegin (tick_ms j)) [Suc k..<Suc k + n]"

section \<open>Properties\<close>

subsection \<open>Rounding\<close>

lemma pow2_powr: "pow2 e = 2 powr (of_int e)"
proof (cases "0 \<le> e")
  case True
  then show ?thesis
    by (simp add: pow2_def powr_realpow [symmetric])
next
  case False
  then have "2 powr (of_int e) = 1 / 2 powr (of_int (- e) :: real)"
    by (simp add: powr_minus divide_inverse)
  also have "\<dots> = 1 / 2 ^ nat (- e)"
    using False by (simp add: powr_realpow [symmetric])
  finally show ?thesis using False by (simp add: pow2_def)
qed

lemma pow2_pos [simp]: "0 < pow2 e"
  by (simp add: pow2_powr)

lemma pow2_nonneg [simp]: "0 \<le> pow2 e"
  using pow2_pos [of e] by linarith

lemma pow2_neq0 [simp]: "pow2 e \<noteq> 0"
  using pow2_pos [of e] by linarith

lemma pow2_add: "pow2 (a + b) = pow2 a * pow2 b"
  by (simp add: pow2_powr powr_add)

lemma pow2_mono: "a \<le> b \<Longrightarrow> pow2 a \<le> pow2 b"
  by (simp add: pow2_powr)

lemma ilog2_bounds:
  assumes "0 < x"
  shows "pow2 \<lfloor>log 2 x\<rfloor> \<le> x" and "x < pow2 (\<lfloor>log 2 x\<rfloor> + 1)"
proof -
  have "2 powr (of_int \<lfloor>log 2 x\<rfloor>) \<le> 2 powr (log 2 x)"
    by (simp del: powr_log_cancel)
  then show "pow2 \<lfloor>log 2 x\<rfloor> \<le> x"
    using assms by (simp add: pow2_powr)
  have "2 powr (log 2 x) < 2 powr (of_int (\<lfloor>log 2 x\<rfloor> + 1))"
    by (simp del: powr_log_cancel)
  then show "x < pow2 (\<lfloor>log 2 x\<rfloor> + 1)"
    using assms by (simp add: pow2_powr)
qed

lemma ilog2_eq:
  assumes "pow2 e \<le> x" and "x < pow2 (e + 1)"
  shows "\<lfloor>log 2 x\<rfloor> = e"
proof -
  have pos: "0 < x" using assms(1) pow2_pos [of e] by linarith
  have "of_int e \<le> log 2 x"
    using assms(1) pos by (simp add: pow2_powr le_log_iff)
  moreover have "log 2 x < of_int (e + 1)"
    using assms(2) pos by (simp add: pow2_powr log_less_iff)
  ultimately show ?thesis by linarith
qed


lemma round_even_near: "\<bar>of_int (round_even r) - r\<bar> \<le> 1 / 2"
  unfolding round_even_def Let_def by (auto simp: abs_if) linarith+

lemma round_even_int [simp]: "round_even (of_int n) = n"
  by (simp add: round_even_def)

lemma round_even_mono:
  assumes "r \<le> r'"
  shows "round_even r \<le> round_even r'"
proof (cases "\<lfloor>r\<rfloor> = \<lfloor>r'\<rfloor>")
  case True
  with assms show ?thesis
    by (auto simp: round_even_def Let_def)
next
  case False
  with assms have "\<lfloor>r\<rfloor> + 1 \<le> \<lfloor>r'\<rfloor>"
    using floor_mono [OF assms] by linarith
  moreover have "round_even r \<le> \<lfloor>r\<rfloor> + 1"
    by (auto simp: round_even_def Let_def)
  moreover have "\<lfloor>r'\<rfloor> \<le> round_even r'"
    by (auto simp: round_even_def Let_def)
  ultimately show ?thesis by linarith
qed

lemma binade_eq:
  assumes "pow2 e \<le> \<bar>x\<bar>" and "\<bar>x\<bar> < pow2 (e + 1)" and "- 1022 \<le> e"
  shows "binade x = e"
  using ilog2_eq [OF assms(1,2)] assms(3) by (simp add: binade_def)

lemma round_double_eval:
  assumes "pow2 e \<le> \<bar>x\<bar>" and "\<bar>x\<bar> < pow2 (e + 1)" and "- 1022 \<le> e"
  shows "round_double x = of_int (round_even (x / pow2 (e - 52))) * pow2 (e - 52)"
proof -
  have "0 < \<bar>x\<bar>" using assms(1) pow2_pos [of e] by linarith
  then have "x \<noteq> 0" by simp
  then show ?thesis
    by (simp add: round_double_def binade_eq [OF assms])
qed

lemma round_even_minus: "round_even (- r) = - round_even r"
proof (cases "r = of_int \<lfloor>r\<rfloor>")
  case True
  then obtain n where "r = of_int n" ..
  then have "- r = of_int (- n)" by simp
  then show ?thesis unfolding \<open>r = of_int n\<close> by (metis round_even_int)
next
  case False
  then have ne: "of_int \<lfloor>r\<rfloor> < r"
    using of_int_floor_le [of r] by linarith
  have fl: "\<lfloor>- r\<rfloor> = - \<lfloor>r\<rfloor> - 1"
  proof (rule floor_unique)
    show "of_int (- \<lfloor>r\<rfloor> - 1) \<le> - r"
      using floor_correct [of r] by simp linarith
    show "- r < of_int (- \<lfloor>r\<rfloor> - 1) + 1"
      using ne by simp
  qed
  show ?thesis
    unfolding round_even_def Let_def fl by (auto simp: algebra_simps)
qed


lemma round_double_minus: "round_double (- x) = - round_double x"
  by (simp add: round_double_def binade_def round_even_minus)

lemma round_double_nonneg: "0 \<le> x \<Longrightarrow> 0 \<le> round_double x"
proof -
  assume "0 \<le> x"
  then have "0 \<le> x / pow2 (binade x - 52)" by simp
  from round_even_mono [OF this] have "0 \<le> round_even (x / pow2 (binade x - 52))"
    by (simp add: round_even_def)
  then show ?thesis by (simp add: round_double_def)
qed

lemma binade_upper: "x \<noteq> 0 \<Longrightarrow> \<bar>x\<bar> < pow2 (binade x + 1)"
proof -
  assume "x \<noteq> 0"
  then have "\<bar>x\<bar> < pow2 (\<lfloor>log 2 \<bar>x\<bar>\<rfloor> + 1)"
    by (intro ilog2_bounds) simp
  also have "\<dots> \<le> pow2 (binade x + 1)"
    by (intro pow2_mono) (simp add: binade_def)
  finally show ?thesis .
qed

lemma binade_mono:
  assumes "0 < x" and "x \<le> y"
  shows "binade x \<le> binade y"
proof -
  have "log 2 x \<le> log 2 y" using assms by simp
  then have "\<lfloor>log 2 x\<rfloor> \<le> \<lfloor>log 2 y\<rfloor>" by (rule floor_mono)
  then show ?thesis using assms by (simp add: binade_def)
qed

lemma pow2_split:
  "pow2 (b + 1) = 2 ^ 53 * pow2 (b - 52)"
  "pow2 b = 2 ^ 52 * pow2 (b - 52)"
proof -
  have "pow2 (53 + (b - 52)) = pow2 53 * pow2 (b - 52)" by (rule pow2_add)
  moreover have "53 + (b - 52) = b + 1" by simp
  ultimately show "pow2 (b + 1) = 2 ^ 53 * pow2 (b - 52)"
    by (simp add: pow2_def [of 53])
  have "pow2 (52 + (b - 52)) = pow2 52 * pow2 (b - 52)" by (rule pow2_add)
  then show "pow2 b = 2 ^ 52 * pow2 (b - 52)"
    by (simp add: pow2_def [of 52])
qed

lemma round_double_le_top:
  assumes "0 < x"
  shows "round_double x \<le> pow2 (binade x + 1)"
proof -
  let ?U = "pow2 (binade x - 52)"
  have "x / ?U \<le> pow2 (binade x + 1) / ?U"
    using binade_upper [of x] assms by (intro divide_right_mono) simp_all
  then have "x / ?U \<le> of_int (2 ^ 53)"
    by (simp add: pow2_split(1))
  from round_even_mono [OF this] have "round_even (x / ?U) \<le> 2 ^ 53"
    by (simp only: round_even_int)
  then have "real_of_int (round_even (x / ?U)) \<le> real_of_int (2 ^ 53)"
    by (simp only: of_int_le_iff)
  then have "of_int (round_even (x / ?U)) * ?U \<le> 2 ^ 53 * ?U"
    by (intro mult_right_mono) simp_all
  then show ?thesis using assms by (simp add: round_double_def pow2_split(1))
qed

lemma round_double_ge_bottom:
  assumes "0 < x" and "- 1022 \<le> \<lfloor>log 2 x\<rfloor>"
  shows "pow2 (binade x) \<le> round_double x"
proof -
  let ?U = "pow2 (binade x - 52)"
  have b: "binade x = \<lfloor>log 2 x\<rfloor>"
    using assms by (simp add: binade_def)
  have "pow2 (binade x) \<le> x"
    unfolding b using assms(1) by (rule ilog2_bounds)
  then have "pow2 (binade x) / ?U \<le> x / ?U"
    by (intro divide_right_mono) simp_all
  then have "of_int (2 ^ 52) \<le> x / ?U"
    by (simp add: pow2_split(2) [of "binade x"])
  from round_even_mono [OF this] have "2 ^ 52 \<le> round_even (x / ?U)"
    by (simp only: round_even_int)
  then have "real_of_int (2 ^ 52) \<le> real_of_int (round_even (x / ?U))"
    by (simp only: of_int_le_iff)
  then have "2 ^ 52 * ?U \<le> of_int (round_even (x / ?U)) * ?U"
    by (intro mult_right_mono) simp_all
  then show ?thesis
    using assms by (simp add: round_double_def pow2_split(2) [of "binade x"])
qed

lemma round_double_mono_pos:
  assumes "0 < x" and "x \<le> y"
  shows "round_double x \<le> round_double y"
proof (cases "binade x = binade y")
  case True
  have "x / pow2 (binade y - 52) \<le> y / pow2 (binade y - 52)"
    using assms by (intro divide_right_mono) simp_all
  from round_even_mono [OF this]
  have "real_of_int (round_even (x / pow2 (binade y - 52))) \<le>
        real_of_int (round_even (y / pow2 (binade y - 52)))"
    by (simp only: of_int_le_iff)
  then have "of_int (round_even (x / pow2 (binade y - 52))) * pow2 (binade y - 52) \<le>
        of_int (round_even (y / pow2 (binade y - 52))) * pow2 (binade y - 52)"
    by (intro mult_right_mono) simp_all
  then show ?thesis using assms True by (simp add: round_double_def)
next
  case False
  with binade_mono [OF assms] have lt: "binade x + 1 \<le> binade y" by simp
  have "- 1022 \<le> binade x" by (simp add: binade_def)
  with lt have "- 1022 < binade y" by simp
  then have "- 1022 \<le> \<lfloor>log 2 y\<rfloor>"
    using assms by (simp add: binade_def max_def split: if_splits)
  moreover have "0 < y" using assms by simp
  ultimately have "pow2 (binade y) \<le> round_double y"
    by (intro round_double_ge_bottom)
  moreover have "round_double x \<le> pow2 (binade x + 1)"
    using assms(1) by (rule round_double_le_top)
  moreover have "pow2 (binade x + 1) \<le> pow2 (binade y)"
    using lt by (rule pow2_mono)
  ultimately show ?thesis by linarith
qed

lemma round_double_mono:
  assumes "x \<le> y"
  shows "round_double x \<le> round_double y"
proof -
  consider "0 < x" | "x \<le> 0" "0 \<le> y" | "y < 0" by linarith
  then show ?thesis
  proof cases
    case 1
    then show ?thesis using assms by (rule round_double_mono_pos)
  next
    case 2
    have "0 \<le> round_double (- x)" using 2(1) by (intro round_double_nonneg) simp
    then have "round_double x \<le> 0" by (simp add: round_double_minus)
    moreover have "0 \<le> round_double y" using 2(2) by (rule round_double_nonneg)
    ultimately show ?thesis by linarith
  next
    case 3
    then have "0 < - y" "- y \<le> - x" using assms by simp_all
    from round_double_mono_pos [OF this] show ?thesis
      by (simp add: round_double_minus)
  qed
qed

lemma round_double_err:
  assumes "pow2 (- 1022) \<le> \<bar>x\<bar>"
  shows "\<bar>round_double x - x\<bar> \<le> \<bar>x\<bar> / 2 ^ 53"
proof -
  have pos: "0 < \<bar>x\<bar>" using assms pow2_pos [of "- 1022"] by linarith
  then have x0: "x \<noteq> 0" by simp
  have "of_int (- 1022) \<le> log 2 \<bar>x\<bar>"
    using assms pos by (simp add: pow2_powr le_log_iff)
  then have b: "binade x = \<lfloor>log 2 \<bar>x\<bar>\<rfloor>"
    by (simp add: binade_def le_floor_iff)
  let ?U = "pow2 (binade x - 52)"
  have low: "pow2 (binade x) \<le> \<bar>x\<bar>"
    unfolding b using pos by (rule ilog2_bounds)
  have "round_double x - x = (of_int (round_even (x / ?U)) - x / ?U) * ?U"
    using x0 by (simp add: round_double_def algebra_simps)
  then have "\<bar>round_double x - x\<bar> = \<bar>of_int (round_even (x / ?U)) - x / ?U\<bar> * ?U"
    by (simp add: abs_mult)
  also have "\<dots> \<le> 1 / 2 * ?U"
    by (intro mult_right_mono round_even_near) simp
  also have "\<dots> = pow2 (binade x) / 2 ^ 53"
    by (simp add: pow2_split(2) [of "binade x"])
  also have "\<dots> \<le> \<bar>x\<bar> / 2 ^ 53"
    using low by (simp add: divide_right_mono)
  finally show ?thesis .
qed


lemma round_double_bounds:
  assumes "pow2 (- 1022) \<le> x"
  shows "round_double x \<le> x * (1 + 1 / 2 ^ 53)" and "x * (1 - 1 / 2 ^ 53) \<le> round_double x"
proof -
  have pos: "0 < x" using assms pow2_pos [of "- 1022"] by linarith
  then have "pow2 (- 1022) \<le> \<bar>x\<bar>" using assms by simp
  from round_double_err [OF this] pos have "\<bar>round_double x - x\<bar> \<le> x / 2 ^ 53" by simp
  then have "round_double x - x \<le> x / 2 ^ 53" "x - round_double x \<le> x / 2 ^ 53"
    by linarith+
  then show "round_double x \<le> x * (1 + 1 / 2 ^ 53)" "x * (1 - 1 / 2 ^ 53) \<le> round_double x"
    by (simp_all add: algebra_simps)
qed

lemma round_double_1: "round_double 1 = 1"
  by (subst round_double_eval [where e = 0]) (simp_all add: pow2_def round_even_def)

lemma e_minus9_val: "e_minus9 = 4835703278458517 / 2 ^ 82"
  unfolding e_minus9_def
  by (subst round_double_eval [where e = "- 30"]) (simp_all add: pow2_def round_even_def)


subsection \<open>Reading a time as a double\<close>

lemma Time_minus_eq:
  "Time_minus a b =
     \<lparr>sec = (nanoseconds a - nanoseconds b) div 10 ^ 9,
      nsec = (nanoseconds a - nanoseconds b) mod 10 ^ 9\<rparr>"
proof -
  define x where "x = sec a - sec b"
  define y where "y = nsec a - nsec b"
  have "nanoseconds a - nanoseconds b = y + x * 10 ^ 9"
    by (simp add: nanoseconds_def x_def y_def algebra_simps)
  moreover have "(y + x * 10 ^ 9) div 10 ^ 9 = x + y div 10 ^ 9"
    "(y + x * 10 ^ 9) mod 10 ^ 9 = y mod 10 ^ 9"
    by simp_all
  ultimately show ?thesis
    by (simp add: Time_minus_def Correct_def x_def y_def)
qed

lemma Double_Time_minus:
  "Double (Time_minus a b) = Finite (reading (nanoseconds a - nanoseconds b))"
  by (simp add: Time_minus_eq Double_def reading_def)

lemma round_double_0 [simp]: "round_double 0 = 0"
  by (simp add: round_double_def)

lemma fraction_bounds:
  assumes "0 \<le> N" and "N < 10 ^ 9"
  shows "0 \<le> round_double (of_int N * e_minus9)"
    and "round_double (of_int N * e_minus9) \<le> 1"
proof -
  have c: "0 \<le> e_minus9" by (simp add: e_minus9_val)
  show "0 \<le> round_double (of_int N * e_minus9)"
    using assms(1) c by (intro round_double_nonneg) simp
  have "N \<le> 999999999" using assms(2) by simp
  then have "real_of_int N \<le> 999999999" by linarith
  then have "of_int N * e_minus9 \<le> 999999999 * e_minus9"
    using c by (intro mult_right_mono)
  also have "\<dots> \<le> 1" by (simp add: e_minus9_val)
  finally have "round_double (of_int N * e_minus9) \<le> round_double 1"
    by (rule round_double_mono)
  then show "round_double (of_int N * e_minus9) \<le> 1"
    by (simp add: round_double_1)
qed

lemma reading_nonpos:
  assumes "n \<le> 0"
  shows "reading n \<le> 0"
proof (cases "n = 0")
  case True
  then show ?thesis by (simp add: reading_def)
next
  case False
  with assms have "n div 10 ^ 9 < 0" by (simp add: div_neg_pos_less0)
  then have "real_of_int (n div 10 ^ 9) \<le> - 1" by linarith
  moreover have "round_double (of_int (n mod 10 ^ 9) * e_minus9) \<le> 1"
    by (intro fraction_bounds) simp_all
  ultimately have
    "of_int (n div 10 ^ 9) + round_double (of_int (n mod 10 ^ 9) * e_minus9) \<le> 0"
    by linarith
  from round_double_mono [OF this] show ?thesis
    by (simp add: reading_def)
qed

lemma reading_mono:
  assumes "n \<le> n'"
  shows "reading n \<le> reading n'"
proof -
  let ?P = "\<lambda>k :: int. round_double (of_int (k mod 10 ^ 9) * e_minus9)"
  have q: "n div 10 ^ 9 \<le> n' div 10 ^ 9"
    using assms by (intro zdiv_mono1) simp_all
  have "of_int (n div 10 ^ 9) + ?P n \<le> of_int (n' div 10 ^ 9) + ?P n'"
  proof (cases "n div 10 ^ 9 = n' div 10 ^ 9")
    case True
    have "n mod 10 ^ 9 \<le> n' mod 10 ^ 9"
      using assms True by (metis add_le_cancel_left mult_div_mod_eq)
    then have "real_of_int (n mod 10 ^ 9) \<le> real_of_int (n' mod 10 ^ 9)" by linarith
    moreover have "0 \<le> e_minus9" by (simp add: e_minus9_val)
    ultimately have "of_int (n mod 10 ^ 9) * e_minus9 \<le> of_int (n' mod 10 ^ 9) * e_minus9"
      by (intro mult_right_mono)
    from round_double_mono [OF this] True show ?thesis by simp
  next
    case False
    with q have "n div 10 ^ 9 + 1 \<le> n' div 10 ^ 9" by simp
    then have "real_of_int (n div 10 ^ 9) + 1 \<le> real_of_int (n' div 10 ^ 9)" by linarith
    moreover have "?P n \<le> 1" by (intro fraction_bounds) simp_all
    moreover have "0 \<le> ?P n'" by (intro fraction_bounds) simp_all
    ultimately show ?thesis by linarith
  qed
  from round_double_mono [OF this] show ?thesis
    by (simp add: reading_def)
qed

lemma reading_bounds:
  assumes "0 < n"
  shows "reading n \<le> of_int n / 10 ^ 9 * (1 + 1 / 2 ^ 51)"
    and "of_int n / 10 ^ 9 * (1 - 1 / 2 ^ 51) \<le> reading n"
proof -
  define S where "S = real_of_int (n div 10 ^ 9)"
  define N where "N = real_of_int (n mod 10 ^ 9)"
  define P where "P = round_double (N * e_minus9)"
  have n: "real_of_int n = S * 10 ^ 9 + N"
  proof -
    have "real_of_int (x * 10 ^ 9 + y) = real_of_int x * 10 ^ 9 + real_of_int y" for x y
      by simp
    from this [of "n div 10 ^ 9" "n mod 10 ^ 9"] show ?thesis
      by (simp only: div_mult_mod_eq S_def N_def)
  qed
  have S0: "0 \<le> S"
    using assms by (simp add: S_def pos_imp_zdiv_nonneg_iff)
  have N0: "0 \<le> N" by (simp add: N_def)
  have c: "e_minus9 = 4835703278458517 / 2 ^ 82" by (rule e_minus9_val)
  have P: "N * e_minus9 * (1 - 1 / 2 ^ 53) \<le> P \<and> P \<le> N * e_minus9 * (1 + 1 / 2 ^ 53)"
  proof (cases "n mod 10 ^ 9 = 0")
    case True
    then show ?thesis by (simp add: P_def N_def)
  next
    case False
    moreover have "0 \<le> n mod 10 ^ 9" by simp
    ultimately have "1 \<le> n mod 10 ^ 9" by linarith
    then have "1 \<le> N" unfolding N_def by linarith
    then have "1 * e_minus9 \<le> N * e_minus9"
      by (intro mult_right_mono) (simp_all add: c)
    moreover have "pow2 (- 1022) \<le> e_minus9"
      by (simp add: c pow2_def)
    ultimately have "pow2 (- 1022) \<le> N * e_minus9" by linarith
    from round_double_bounds [OF this] show ?thesis by (simp add: P_def)
  qed
  have rd: "reading n = round_double (S + P)"
    by (simp add: reading_def S_def N_def P_def)
  have y: "pow2 (- 1022) \<le> S + P"
  proof (cases "n div 10 ^ 9 = 0")
    case True
    then have "n mod 10 ^ 9 = n" by (metis add_0 mult_zero_left mult_div_mod_eq mult.commute)
    with assms have "1 \<le> N" unfolding N_def by linarith
    with P have "e_minus9 * (1 - 1 / 2 ^ 53) \<le> P"
      by (simp add: c)
    moreover have "pow2 (- 1022) \<le> e_minus9 * (1 - 1 / 2 ^ 53)"
      by (simp add: c pow2_def)
    ultimately show ?thesis using S0 by linarith
  next
    case False
    then have "1 \<le> n div 10 ^ 9"
      using assms pos_imp_zdiv_nonneg_iff [of "10 ^ 9" n] by simp
    then have "1 \<le> S" unfolding S_def by linarith
    moreover have "0 \<le> P" using P N0 by (simp add: c)
    moreover have "pow2 (- 1022) \<le> 1" by (simp add: pow2_def)
    ultimately show ?thesis by linarith
  qed
  from round_double_bounds [OF y]
  have R: "reading n \<le> (S + P) * (1 + 1 / 2 ^ 53)" "(S + P) * (1 - 1 / 2 ^ 53) \<le> reading n"
    by (simp_all add: rd)
  show "reading n \<le> of_int n / 10 ^ 9 * (1 + 1 / 2 ^ 51)"
    using R(1) P S0 N0 by (simp add: n c)
  show "of_int n / 10 ^ 9 * (1 - 1 / 2 ^ 51) \<le> reading n"
    using R(2) P S0 N0 by (simp add: n c)
qed


subsection \<open>The rate control\<close>

lemma less_double_mono:
  "x \<le> x' \<Longrightarrow> \<not> less_double (Finite x) Q \<Longrightarrow> \<not> less_double (Finite x') Q"
  by (cases Q) auto

lemma rate_limited_mono:
  assumes "\<not> rate_limited s p" and "nanoseconds p \<le> nanoseconds q"
  shows "\<not> rate_limited s q"
proof -
  have "reading (nanoseconds p - nanoseconds (last_time s))
      \<le> reading (nanoseconds q - nanoseconds (last_time s))"
    using assms(2) by (intro reading_mono) simp
  from less_double_mono [OF this] assms(1) show ?thesis
    by (auto simp: rate_limited_def Double_Time_minus)
qed

lemma one_over_normal:
  assumes "normal_period f"
  shows "one_over (Finite f) = Finite (round_double (1 / f))"
proof -
  have f: "0 < f" "pow2 (- 1022) \<le> 1 / f" "1 / f < pow2 1023"
    using assms by (simp_all add: normal_period_def)
  have x: "0 < 1 / f" using f(1) by simp
  have "log 2 (1 / f) < 1023"
    using f(3) x by (simp add: pow2_powr log_less_iff del: log_divide)
  then have "\<lfloor>log 2 \<bar>1 / f\<bar>\<rfloor> \<le> 1022"
    using x by (simp add: floor_le_iff del: log_divide)
  then have "binade (1 / f) + 1 \<le> 1023" by (simp add: binade_def)
  then have "pow2 (binade (1 / f) + 1) \<le> pow2 1023" by (rule pow2_mono)
  with round_double_le_top [OF x] have "round_double (1 / f) \<le> pow2 1023" by linarith
  moreover have "pow2 1023 < 2 ^ 1024" by (simp add: pow2_def)
  moreover have "0 \<le> round_double (1 / f)"
    using x by (intro round_double_nonneg) simp
  ultimately show ?thesis
    using f(1) by (simp add: fl_def Let_def)
qed

lemma rate_limited_normal:
  assumes "update_rate s = Finite f" and "normal_period f"
  shows "rate_limited s cur =
     (reading (nanoseconds cur - nanoseconds (last_time s)) < round_double (1 / f))"
proof -
  have "0 < f" using assms(2) by (simp add: normal_period_def)
  then show ?thesis
    by (simp add: rate_limited_def Double_Time_minus assms(1) one_over_normal [OF assms(2)]
        del: one_over.simps)
qed

lemma seconds_diff: "seconds a - seconds b = of_int (nanoseconds a - nanoseconds b) / 10 ^ 9"
  by (simp add: seconds_def diff_divide_distrib)

text \<open>
  A step that the rate control lets through comes at least a period after the last
  sample, up to the rounding: a relative \<open>2\<^sup>-\<^sup>5\<^sup>0\<close>.
\<close>

lemma gate_open_only_if:
  assumes "update_rate s = Finite f" and "normal_period f" and "\<not> rate_limited s cur"
  shows "(1 - 1 / 2 ^ 50) / f \<le> seconds cur - seconds (last_time s)"
proof -
  define n where "n = nanoseconds cur - nanoseconds (last_time s)"
  define g where "g = 1 / f"
  have g: "0 < g" "pow2 (- 1022) \<le> g"
    using assms(2) by (simp_all add: normal_period_def g_def)
  have Q: "g * (1 - 1 / 2 ^ 53) \<le> round_double g"
    using g(2) by (rule round_double_bounds)
  have pass: "round_double g \<le> reading n"
    using assms(3) by (simp add: rate_limited_normal [OF assms(1,2)] n_def g_def)
  have "0 < g * (1 - 1 / 2 ^ 53)" using g(1) by simp
  with Q pass have "0 < reading n" by linarith
  then have "0 < n" using reading_nonpos [of n] by linarith
  from reading_bounds(1) [OF this] Q pass g(1)
  have "g * (1 - 1 / 2 ^ 50) \<le> of_int n / 10 ^ 9"
    by simp
  then show ?thesis
    by (simp add: seconds_diff n_def g_def)
qed

text \<open>And a step that comes a period after the last sample, and a relative \<open>2\<^sup>-\<^sup>5\<^sup>0\<close>
  more, is let through.\<close>

lemma gate_open_if:
  assumes "update_rate s = Finite f" and "normal_period f"
    and "(1 + 1 / 2 ^ 50) / f \<le> seconds cur - seconds (last_time s)"
  shows "\<not> rate_limited s cur"
proof -
  define n where "n = nanoseconds cur - nanoseconds (last_time s)"
  define g where "g = 1 / f"
  have g: "0 < g" "pow2 (- 1022) \<le> g"
    using assms(2) by (simp_all add: normal_period_def g_def)
  have Q: "round_double g \<le> g * (1 + 1 / 2 ^ 53)"
    using g(2) by (rule round_double_bounds)
  have far: "g * (1 + 1 / 2 ^ 50) \<le> of_int n / 10 ^ 9"
    using assms(3) by (simp add: seconds_diff n_def g_def)
  moreover have "0 < g * (1 + 1 / 2 ^ 50)" using g(1) by simp
  ultimately have "0 < real_of_int n" by simp
  then have "0 < n" by simp
  from reading_bounds(2) [OF this] Q far g(1)
  have "round_double g \<le> reading n"
    by simp
  then show ?thesis
    by (simp add: rate_limited_normal [OF assms(1,2)] n_def g_def)
qed


subsection \<open>The concrete instance, evaluated\<close>

lemma loaded0_eq:
  "loaded0 =
    \<lparr>ft_connect_count = 0, update_rate = Finite 10, last_time = \<lparr>sec = 0, nsec = 0\<rparr>,
      wrench_msg = \<lparr>header = \<lparr>seq = 0, frame_id = [], stamp = \<lparr>sec = 0, nsec = 0\<rparr>\<rparr>,
                    wrench = \<lparr>force = \<lparr>vec_x = 0, vec_y = 0, vec_z = 0\<rparr>,
                              torque = \<lparr>vec_x = 0, vec_y = 0, vec_z = 0\<rparr>\<rparr>\<rparr>,
      robot_namespace = ''robot/'', joint_name = ''wrist'', topic_name = ''ft'',
      frame_name = ''hand'',
      joint = Some \<lparr>parent_link = ''arm'', child_link = ''hand''\<rparr>,
      rosnode = Valid \<lparr>ns = ''robot/'', ok = True\<rparr>, pub = Some ''ft'',
      queue_pending = [], queue_enabled = True,
      callback_queue_thread = Running, update_connection = Connected\<rparr>"
  by (simp add: loaded0_def Load_def host0_def sdf0_def GazeboRosFT_ctor_def memory0_def)

lemma subscribed_eq:
  "subscribed r = loaded0\<lparr>ft_connect_count := 1, update_rate := Finite r\<rparr>"
  by (simp add: subscribed_def loaded0_def Load_def host0_def sdf0_def GazeboRosFT_ctor_def
      memory0_def FTConnect_def)

lemma subscribed_fields [simp]:
  "ft_connect_count (subscribed r) = 1"
  "update_rate (subscribed r) = Finite r"
  "last_time (subscribed r) = \<lparr>sec = 0, nsec = 0\<rparr>"
  by (simp_all add: subscribed_eq loaded0_eq)

lemma normal_period_10: "normal_period 10"
  by (simp add: normal_period_def pow2_def)

lemma normal_period_slow: "normal_period slow_rate"
  by (simp add: normal_period_def pow2_def slow_rate_def)

lemma normal_period_fast: "normal_period fast_rate"
  by (simp add: normal_period_def pow2_def fast_rate_def)

lemma rates_pos [simp]: "0 < slow_rate" "0 < fast_rate"
  by (simp_all add: slow_rate_def fast_rate_def)

lemma reading_eval:
  assumes "round_double (of_int (n mod 10 ^ 9) * e_minus9) = P"
    and "round_double (of_int (n div 10 ^ 9) + P) = D"
  shows "reading n = D"
  using assms by (simp add: reading_def)

text \<open>
  The two sides of the comparison where the rounding decides. At 3125/4096 Hz the period
  is exactly 1.31072 s; read as doubles, an elapsed time of 1.31072 s is one unit in the
  last place below the quotient.
\<close>

lemma reading_slow: "reading 1310720000 = 5902958103587056 / 2 ^ 52"
proof (rule reading_eval)
  show "round_double (of_int (1310720000 mod 10 ^ 9) * e_minus9) = 5597433904866242 / 2 ^ 54"
    by (subst round_double_eval [where e = "- 2"])
      (simp_all add: e_minus9_val pow2_def round_even_def)
  show "round_double (of_int (1310720000 div 10 ^ 9) + 5597433904866242 / 2 ^ 54) = 5902958103587056 / 2 ^ 52"
    by (subst round_double_eval [where e = "0"]) (simp_all add: pow2_def round_even_def)
qed

lemma period_slow: "one_over (Finite slow_rate) = Finite (5902958103587057 / 2 ^ 52)"
proof -
  have "round_double (1 / slow_rate) = 5902958103587057 / 2 ^ 52"
    by (subst round_double_eval [where e = 0])
      (simp_all add: pow2_def round_even_def slow_rate_def)
  then show ?thesis
    by (simp only: one_over_normal [OF normal_period_slow])
qed

text \<open>
  At 999.9999999999999 Hz, the double below 1000, an elapsed millisecond and the
  quotient are the same double.
\<close>

lemma reading_ms: "reading 1000000 = 4611686018427388 / 2 ^ 62"
proof (rule reading_eval)
  show "round_double (of_int (1000000 mod 10 ^ 9) * e_minus9) = 4611686018427388 / 2 ^ 62"
    by (subst round_double_eval [where e = "- 10"])
      (simp_all add: e_minus9_val pow2_def round_even_def)
  show "round_double (of_int (1000000 div 10 ^ 9) + 4611686018427388 / 2 ^ 62) = 4611686018427388 / 2 ^ 62"
    by (subst round_double_eval [where e = "- 10"]) (simp_all add: pow2_def round_even_def)
qed

lemma period_fast: "one_over (Finite fast_rate) = Finite (4611686018427388 / 2 ^ 62)"
proof -
  have "round_double (1 / fast_rate) = 4611686018427388 / 2 ^ 62"
    by (subst round_double_eval [where e = "- 10"])
      (simp_all add: pow2_def round_even_def fast_rate_def)
  then show ?thesis
    by (simp only: one_over_normal [OF normal_period_fast])
qed

text \<open>At 10 Hz, an elapsed 100 ms and the quotient are the same double.\<close>

lemma reading_100ms: "reading 100000000 = 7205759403792794 / 2 ^ 56"
proof (rule reading_eval)
  show "round_double (of_int (100000000 mod 10 ^ 9) * e_minus9) = 7205759403792794 / 2 ^ 56"
    by (subst round_double_eval [where e = "- 4"])
      (simp_all add: e_minus9_val pow2_def round_even_def)
  show "round_double (of_int (100000000 div 10 ^ 9) + 7205759403792794 / 2 ^ 56) = 7205759403792794 / 2 ^ 56"
    by (subst round_double_eval [where e = "- 4"]) (simp_all add: pow2_def round_even_def)
qed

lemma period_10: "one_over (Finite 10) = Finite (7205759403792794 / 2 ^ 56)"
proof -
  have "round_double (1 / 10) = 7205759403792794 / 2 ^ 56"
    by (subst round_double_eval [where e = "- 4"]) (simp_all add: pow2_def round_even_def)
  then show ?thesis
    by (simp only: one_over_normal [OF normal_period_10])
qed


subsection \<open>The rate limiter and the subscriber gate\<close>

lemma UpdateChild_limited:
  "rate_limited s (SimTime p) \<Longrightarrow> UpdateChild p s = (s, [])"
  by (simp add: UpdateChild_def)

lemma UpdateChild_idle:
  "\<not> rate_limited s (SimTime p) \<Longrightarrow> ft_connect_count s = 0 \<Longrightarrow> UpdateChild p s = (s, [])"
  by (simp add: UpdateChild_def)

lemma UpdateChild_publishes:
  "\<not> rate_limited s (SimTime p) \<Longrightarrow> ft_connect_count s \<noteq> 0 \<Longrightarrow>
   UpdateChild p s =
     (s\<lparr>wrench_msg := copy_wrench s p, last_time := SimTime p\<rparr>,
      [Lock, Publish (copy_wrench s p), Unlock])"
  by (simp add: UpdateChild_def Let_def)

text \<open>
  Against claim C1 as it is written. At 3125/4096 Hz the period is exactly 1.31072 s.
  With one subscriber and the last sample at time 0, at the step at 1.31072 s the
  contract \<open>now - lastSampleTimestamp \<ge> 1 / f\<close> holds, with equality, and
  \<open>UpdateChild\<close> holds the step back: the elapsed time read as a double is less than the
  double quotient \<open>1.0 / f\<close>.
\<close>

theorem rate_gate_rounding:
  "update_rate (subscribed slow_rate) = Finite slow_rate
   \<and> ft_connect_count (subscribed slow_rate) = 1
   \<and> shouldSample (seconds (SimTime (physics0 1 310720000))) slow_rate
        (seconds (last_time (subscribed slow_rate)))
   \<and> UpdateChild (physics0 1 310720000) (subscribed slow_rate) =
        (subscribed slow_rate, [])"
proof -
  have "rate_limited (subscribed slow_rate) (SimTime (physics0 1 310720000))"
    by (simp add: rate_limited_def Double_Time_minus period_slow physics0_def nanoseconds_def
        reading_slow del: one_over.simps)
  then have "UpdateChild (physics0 1 310720000) (subscribed slow_rate) =
        (subscribed slow_rate, [])"
    by (rule UpdateChild_limited)
  moreover have "shouldSample (seconds (SimTime (physics0 1 310720000))) slow_rate
        (seconds (last_time (subscribed slow_rate)))"
    by (simp add: shouldSample_def seconds_def nanoseconds_def physics0_def slow_rate_def)
  ultimately show ?thesis by simp
qed

text \<open>
  Claim C1, amended. At every step: a step that the rate control holds back leaves the
  instance as it was and makes no call; with a subscriber, the step publishes exactly
  when the configured rate is not greater than 0 or the elapsed time as the code reads
  it, \<^verbatim>\<open>(cur_time - last_time_).Double()\<close>, is not less than the double quotient
  \<^verbatim>\<open>1.0 / update_rate_\<close>. So a rate that is at most 0 (or not a number) always lets the
  step through; and for a rate \<open>f > 0\<close> with a period in the normal range the gate is
  the contract \<open>now - lastSampleTimestamp \<ge> 1 / f\<close> up to the rounding of the doubles:
  it lies between the contract at frequency \<open>f / (1 + 2\<^sup>-\<^sup>5\<^sup>0)\<close> and the contract at
  frequency \<open>f / (1 - 2\<^sup>-\<^sup>5\<^sup>0)\<close>.
\<close>

theorem rate_gate_contract:
  "(rate_limited s (SimTime p) \<longrightarrow> UpdateChild p s = (s, []))
   \<and> (ft_connect_count s \<noteq> 0 \<longrightarrow>
        (snd (UpdateChild p s) = [Lock, Publish (copy_wrench s p), Unlock]) =
        (\<not> gt_zero (update_rate s) \<or>
         \<not> less_double (Double (Time_minus (SimTime p) (last_time s)))
              (one_over (update_rate s))))
   \<and> (\<not> gt_zero (update_rate s) \<longrightarrow> \<not> rate_limited s (SimTime p))
   \<and> (\<forall>f. update_rate s = Finite f \<and> f \<le> 0 \<longrightarrow> \<not> rate_limited s (SimTime p))
   \<and> (\<forall>f. update_rate s = Finite f \<and> normal_period f \<longrightarrow>
        (\<not> rate_limited s (SimTime p) \<longrightarrow>
           shouldSample (seconds (SimTime p)) (f / (1 - 1 / 2 ^ 50)) (seconds (last_time s)))
      \<and> (shouldSample (seconds (SimTime p)) (f / (1 + 1 / 2 ^ 50)) (seconds (last_time s)) \<longrightarrow>
           \<not> rate_limited s (SimTime p)))"
proof -
  have 1: "rate_limited s (SimTime p) \<longrightarrow> UpdateChild p s = (s, [])"
    by (simp add: UpdateChild_limited)
  have 2: "(snd (UpdateChild p s) = [Lock, Publish (copy_wrench s p), Unlock]) =
        (\<not> gt_zero (update_rate s) \<or>
         \<not> less_double (Double (Time_minus (SimTime p) (last_time s)))
              (one_over (update_rate s)))" if "ft_connect_count s \<noteq> 0"
  proof (cases "rate_limited s (SimTime p)")
    case True
    then show ?thesis
      by (simp add: UpdateChild_limited) (simp add: rate_limited_def)
  next
    case False
    then show ?thesis
      using that by (simp add: UpdateChild_publishes) (auto simp: rate_limited_def)
  qed
  have 3: "\<not> gt_zero (update_rate s) \<longrightarrow> \<not> rate_limited s (SimTime p)"
    by (simp add: rate_limited_def)
  have 4: "\<not> rate_limited s (SimTime p)" if "update_rate s = Finite f" "f \<le> 0" for f
    using that by (simp add: rate_limited_def)
  have 5: "shouldSample (seconds (SimTime p)) (f / (1 - 1 / 2 ^ 50)) (seconds (last_time s))"
    if "update_rate s = Finite f" "normal_period f" "\<not> rate_limited s (SimTime p)" for f
  proof -
    have "0 < f" using that(2) by (simp add: normal_period_def)
    with gate_open_only_if [OF that] show ?thesis
      by (simp add: shouldSample_def)
  qed
  have 6: "\<not> rate_limited s (SimTime p)"
    if "update_rate s = Finite f" "normal_period f"
      "shouldSample (seconds (SimTime p)) (f / (1 + 1 / 2 ^ 50)) (seconds (last_time s))" for f
  proof -
    have "0 < f" using that(2) by (simp add: normal_period_def)
    with that(3) have "(1 + 1 / 2 ^ 50) / f \<le> seconds (SimTime p) - seconds (last_time s)"
      by (simp add: shouldSample_def)
    with that(1,2) show ?thesis by (rule gate_open_if)
  qed
  from 1 2 3 4 5 6 show ?thesis by blast
qed

text \<open>
  With a subscriber: at 999.9999999999999 Hz a step 1 ms after the last sample, where
  the two doubles are equal, publishes; at 10 Hz a step 50 ms after the last sample is
  held back and changes nothing.
\<close>

theorem rate_gate_contract_witness:
  "ft_connect_count (subscribed fast_rate) = 1
   \<and> Double (Time_minus (SimTime (tick_ms 1)) (last_time (subscribed fast_rate))) =
       one_over (update_rate (subscribed fast_rate))
   \<and> snd (UpdateChild (tick_ms 1) (subscribed fast_rate)) =
       [Lock, Publish (copy_wrench (subscribed fast_rate) (tick_ms 1)), Unlock]
   \<and> ft_connect_count (subscribed 10) = 1
   \<and> rate_limited (subscribed 10) (SimTime (physics0 0 50000000))
   \<and> UpdateChild (physics0 0 50000000) (subscribed 10) = (subscribed 10, [])"
proof -
  have eq: "Double (Time_minus (SimTime (tick_ms 1)) (last_time (subscribed fast_rate))) =
       one_over (update_rate (subscribed fast_rate))"
    by (simp add: Double_Time_minus period_fast tick_ms_def physics0_def nanoseconds_def
        reading_ms del: one_over.simps)
  have pass: "\<not> less_double
        (Double (Time_minus (SimTime (tick_ms 1)) (last_time (subscribed fast_rate))))
        (one_over (update_rate (subscribed fast_rate)))"
    unfolding eq by (simp add: period_fast del: one_over.simps)
  have cnt: "ft_connect_count (subscribed fast_rate) \<noteq> 0" by simp
  have pub: "snd (UpdateChild (tick_ms 1) (subscribed fast_rate)) =
       [Lock, Publish (copy_wrench (subscribed fast_rate) (tick_ms 1)), Unlock]"
    using rate_gate_contract [of "subscribed fast_rate" "tick_ms 1"] cnt pass by blast
  have "(1 - 1 / 2 ^ 50) / 10 \<le>
      seconds (SimTime (physics0 0 50000000)) - seconds (last_time (subscribed 10))"
    if "\<not> rate_limited (subscribed 10) (SimTime (physics0 0 50000000))"
    using that by (intro gate_open_only_if [OF _ normal_period_10]) simp_all
  then have held: "rate_limited (subscribed 10) (SimTime (physics0 0 50000000))"
    by (auto simp: seconds_def nanoseconds_def physics0_def)
  have same: "UpdateChild (physics0 0 50000000) (subscribed 10) = (subscribed 10, [])"
    using rate_gate_contract [of "subscribed 10" "physics0 0 50000000"] held by blast
  show ?thesis
    using eq pub held same by simp
qed

text \<open>
  Claim C2. A step that the rate limiter lets through while nobody is subscribed
  changes nothing: the last sample time, the message and every other field stay, and
  nothing is published. So when a subscriber then connects, any step at the same or a
  later simulation time publishes.
\<close>

theorem idle_tick_no_effect:
  assumes "\<not> rate_limited s (SimTime p)" and "ft_connect_count s = 0"
  shows "UpdateChild p s = (s, [])
     \<and> (\<forall>q. nanoseconds (SimTime p) \<le> nanoseconds (SimTime q) \<longrightarrow>
           snd (UpdateChild q (FTConnect (fst (UpdateChild p s)))) =
             [Lock, Publish (copy_wrench s q), Unlock])"
proof -
  have idle: "UpdateChild p s = (s, [])"
    using assms by (rule UpdateChild_idle)
  have "snd (UpdateChild q (FTConnect s)) = [Lock, Publish (copy_wrench s q), Unlock]"
    if "nanoseconds (SimTime p) \<le> nanoseconds (SimTime q)" for q
  proof -
    have "\<not> rate_limited s (SimTime q)"
      using assms(1) that by (rule rate_limited_mono)
    then have "\<not> rate_limited (FTConnect s) (SimTime q)"
      by (simp add: rate_limited_def FTConnect_def)
    moreover have "ft_connect_count (FTConnect s) \<noteq> 0"
      using assms(2) by (simp add: FTConnect_def)
    ultimately show ?thesis
      by (simp add: UpdateChild_publishes) (simp add: copy_wrench_def FTConnect_def)
  qed
  with idle show ?thesis by simp
qed

lemma loaded0_fields [simp]:
  "ft_connect_count loaded0 = 0"
  "update_rate loaded0 = Finite 10"
  "last_time loaded0 = \<lparr>sec = 0, nsec = 0\<rparr>"
  by (simp_all add: loaded0_eq)

theorem idle_tick_no_effect_witness:
  "\<not> rate_limited loaded0 (SimTime (physics0 3 0)) \<and> ft_connect_count loaded0 = 0
   \<and> UpdateChild (physics0 3 0) loaded0 = (loaded0, [])
   \<and> snd (UpdateChild (physics0 3 1) (FTConnect (fst (UpdateChild (physics0 3 0) loaded0)))) =
        [Lock, Publish (copy_wrench loaded0 (physics0 3 1)), Unlock]"
proof -
  have a: "\<not> rate_limited loaded0 (SimTime (physics0 3 0))"
    by (rule gate_open_if [OF _ normal_period_10])
      (simp_all add: seconds_def nanoseconds_def physics0_def)
  have b: "ft_connect_count loaded0 = 0"
    by simp
  have c: "nanoseconds (SimTime (physics0 3 0)) \<le> nanoseconds (SimTime (physics0 3 1))"
    by (simp add: physics0_def nanoseconds_def)
  show ?thesis
    using a b c idle_tick_no_effect [OF a b] by blast
qed


subsection \<open>Runs of callbacks\<close>

lemma run_Cons:
  "run (e # es) s =
     (fst (run es (fst (step e s))), snd (step e s) @ snd (run es (fst (step e s))))"
  by (simp add: case_prod_unfold Let_def)

declare run.simps(2) [simp del]
declare run_Cons [simp]

lemma run_count:
  "ft_connect_count (fst (run es s)) =
     ft_connect_count s + int (subscribes es) - int (unsubscribes es)"
proof (induction es arbitrary: s)
  case Nil
  then show ?case by (simp add: subscribes_def unsubscribes_def)
next
  case (Cons e es)
  have stp: "ft_connect_count (fst (step e s)) =
      ft_connect_count s + int (subscribes [e]) - int (unsubscribes [e])"
  proof (cases e)
    case (WorldUpdateBegin p)
    then show ?thesis
      by (simp add: UpdateChild_def Let_def subscribes_def unsubscribes_def)
  next
    case (Subscriber c)
    then show ?thesis
      by (cases c) (simp_all add: FTConnect_def FTDisconnect_def subscribes_def unsubscribes_def)
  qed
  show ?case
    using Cons.IH [of "fst (step e s)"] stp
    by (simp add: subscribes_def unsubscribes_def)
qed

text \<open>
  Claim C3. From the count 0 that the constructor sets, after any sequence of callbacks
  in which no prefix has more unsubscribe than subscribe events, the subscriber count is
  the number \<open>k\<close> of subscribe events minus the number \<open>m\<close> of unsubscribe events, and
  it is not negative after any prefix.
\<close>

theorem subscriber_count_net:
  assumes "\<forall>n \<le> length es. unsubscribes (take n es) \<le> subscribes (take n es)"
  shows "ft_connect_count (fst (run es (GazeboRosFT_ctor m))) =
            int (subscribes es - unsubscribes es)
     \<and> (\<forall>n \<le> length es.
           ft_connect_count (fst (run (take n es) (GazeboRosFT_ctor m))) =
             int (subscribes (take n es)) - int (unsubscribes (take n es))
         \<and> 0 \<le> ft_connect_count (fst (run (take n es) (GazeboRosFT_ctor m))))"
proof -
  have c0: "ft_connect_count (GazeboRosFT_ctor m) = 0"
    by (simp add: GazeboRosFT_ctor_def)
  have "unsubscribes es \<le> subscribes es"
    using assms [rule_format, of "length es"] by simp
  then have "ft_connect_count (fst (run es (GazeboRosFT_ctor m))) =
      int (subscribes es - unsubscribes es)"
    by (simp add: run_count c0)
  moreover have "ft_connect_count (fst (run (take n es) (GazeboRosFT_ctor m))) =
             int (subscribes (take n es)) - int (unsubscribes (take n es))
         \<and> 0 \<le> ft_connect_count (fst (run (take n es) (GazeboRosFT_ctor m)))"
    if "n \<le> length es" for n
    using assms [rule_format, OF that] by (simp add: run_count c0)
  ultimately show ?thesis by blast
qed

text \<open>Two subscribers come and go, around a simulation step: the count is back at 0.\<close>

theorem subscriber_count_net_witness:
  "ft_connect_count (fst (run events0 (GazeboRosFT_ctor memory0))) = 0
   \<and> subscribes events0 = 2 \<and> unsubscribes events0 = 2"
proof -
  have h: "\<forall>n \<le> length events0. unsubscribes (take n events0) \<le> subscribes (take n events0)"
    by (simp add: events0_def subscribes_def unsubscribes_def take_Cons' le_Suc_eq all_conj_distrib)
  have k: "subscribes events0 = 2" "unsubscribes events0 = 2"
    by (simp_all add: events0_def subscribes_def unsubscribes_def)
  show ?thesis
    using h k subscriber_count_net [OF h, of memory0] by simp
qed

subsection \<open>The published message\<close>

lemma UpdateChild_Publish:
  assumes "Publish msg \<in> set (snd (UpdateChild p s))"
  shows "msg = copy_wrench s p"
  using assms by (auto simp: UpdateChild_def Let_def split: if_splits)

lemma run_Publish:
  "Publish msg \<in> set (snd (run es s)) \<Longrightarrow>
   \<exists>p s'. WorldUpdateBegin p \<in> set es \<and> msg = copy_wrench s' p"
proof (induction es arbitrary: s)
  case Nil
  then show ?case by simp
next
  case (Cons e es)
  from Cons.prems consider
      (now) "Publish msg \<in> set (snd (step e s))"
    | (later) "Publish msg \<in> set (snd (run es (fst (step e s))))"
    by auto
  then show ?case
  proof cases
    case now
    then show ?thesis
      by (cases e) (auto dest: UpdateChild_Publish)
  next
    case later
    from Cons.IH [OF later] show ?thesis by auto
  qed
qed

text \<open>
  Claim C5. Every message published in a run carries, in \<open>wrench.force\<close> and
  \<open>wrench.torque\<close>, the \<open>body2Force\<close> and \<open>body2Torque\<close> of the joint wrench read at one
  of the run's simulation steps, component for component and unchanged. The components
  are of an arbitrary type: the code applies no operation to them.
\<close>

theorem wrench_unmodified:
  assumes "Publish msg \<in> set (snd (run es s))"
  shows "\<exists>p. WorldUpdateBegin p \<in> set es
     \<and> force (wrench msg) = body2Force (ForceTorque p)
     \<and> torque (wrench msg) = body2Torque (ForceTorque p)
     \<and> vec_x (force (wrench msg)) = vec_x (body2Force (ForceTorque p))
     \<and> vec_y (force (wrench msg)) = vec_y (body2Force (ForceTorque p))
     \<and> vec_z (force (wrench msg)) = vec_z (body2Force (ForceTorque p))
     \<and> vec_x (torque (wrench msg)) = vec_x (body2Torque (ForceTorque p))
     \<and> vec_y (torque (wrench msg)) = vec_y (body2Torque (ForceTorque p))
     \<and> vec_z (torque (wrench msg)) = vec_z (body2Torque (ForceTorque p))"
proof -
  from run_Publish [OF assms] obtain p s'
    where p: "WorldUpdateBegin p \<in> set es" and m: "msg = copy_wrench s' p"
    by blast
  have "force (wrench (copy_wrench s' p)) = body2Force (ForceTorque p)"
    "torque (wrench (copy_wrench s' p)) = body2Torque (ForceTorque p)"
    by (simp_all add: copy_wrench_def Let_def)
  with p m show ?thesis by auto
qed

theorem wrench_unmodified_witness:
  "Publish msg0 \<in> set (snd (run events0 loaded0))
   \<and> (\<exists>p. WorldUpdateBegin p \<in> set events0
     \<and> force (wrench msg0) = body2Force (ForceTorque p)
     \<and> torque (wrench msg0) = body2Torque (ForceTorque p)
     \<and> vec_x (force (wrench msg0)) = vec_x (body2Force (ForceTorque p))
     \<and> vec_y (force (wrench msg0)) = vec_y (body2Force (ForceTorque p))
     \<and> vec_z (force (wrench msg0)) = vec_z (body2Force (ForceTorque p))
     \<and> vec_x (torque (wrench msg0)) = vec_x (body2Torque (ForceTorque p))
     \<and> vec_y (torque (wrench msg0)) = vec_y (body2Torque (ForceTorque p))
     \<and> vec_z (torque (wrench msg0)) = vec_z (body2Torque (ForceTorque p)))"
proof -
  have "\<not> rate_limited (FTConnect loaded0) (SimTime (physics0 1 0))"
    by (rule gate_open_if [OF _ normal_period_10])
      (simp_all add: FTConnect_def seconds_def nanoseconds_def physics0_def)
  then have "UpdateChild (physics0 1 0) (FTConnect loaded0) =
      ((FTConnect loaded0)\<lparr>wrench_msg := copy_wrench (FTConnect loaded0) (physics0 1 0),
         last_time := SimTime (physics0 1 0)\<rparr>,
       [Lock, Publish (copy_wrench (FTConnect loaded0) (physics0 1 0)), Unlock])"
    by (rule UpdateChild_publishes) (simp add: FTConnect_def)
  moreover have "copy_wrench (FTConnect loaded0) (physics0 1 0) = msg0"
    by (simp add: copy_wrench_def FTConnect_def loaded0_eq physics0_def msg0_def)
  ultimately have a: "Publish msg0 \<in> set (snd (run events0 loaded0))"
    by (simp add: events0_def)
  show ?thesis
    using a wrench_unmodified [OF a] by blast
qed



subsection \<open>The rate of publishing\<close>

lemma separated_lower:
  "0 \<le> d \<Longrightarrow> separated d l ts \<Longrightarrow> x \<in> set ts \<Longrightarrow> l + d \<le> x"
proof (induction ts arbitrary: l)
  case Nil
  then show ?case by simp
next
  case (Cons t ts)
  show ?case
  proof (cases "x = t")
    case True
    with Cons.prems show ?thesis by simp
  next
    case False
    with Cons.prems have "x \<in> set ts" "separated d t ts" by simp_all
    from Cons.IH [OF Cons.prems(1) this(2) this(1)] Cons.prems show ?thesis by simp
  qed
qed

text \<open>
  Times at distances of at least \<open>d\<close> from one another: a window of length \<open>T\<close> holds at
  most \<open>\<lfloor>T / d\<rfloor> + 1\<close> of them. The first time in the window leaves, for the others, a
  window that is shorter by \<open>d\<close>.
\<close>

lemma separated_window:
  assumes "0 < d"
  shows "separated d l ts \<Longrightarrow> 0 \<le> T \<Longrightarrow>
     int (length (filter (\<lambda>t. a \<le> t \<and> t \<le> a + T) ts)) \<le> \<lfloor>T / d\<rfloor> + 1"
proof (induction ts arbitrary: l a T)
  case Nil
  then have "0 \<le> \<lfloor>T / d\<rfloor>" using assms by simp
  then show ?case by simp
next
  case (Cons t ts)
  have sep: "separated d t ts" using Cons.prems by simp
  have nonneg: "0 \<le> \<lfloor>T / d\<rfloor>" using assms Cons.prems by simp
  show ?case
  proof (cases "a \<le> t \<and> t \<le> a + T")
    case False
    then have "filter (\<lambda>t. a \<le> t \<and> t \<le> a + T) (t # ts) = filter (\<lambda>t. a \<le> t \<and> t \<le> a + T) ts"
      by simp
    with Cons.IH [OF sep Cons.prems(2), of a] show ?thesis by simp
  next
    case True
    have low: "t + d \<le> x" if "x \<in> set ts" for x
      using separated_lower [OF _ sep that] assms by simp
    have eq: "filter (\<lambda>x. a \<le> x \<and> x \<le> a + T) ts =
              filter (\<lambda>x. t + d \<le> x \<and> x \<le> a + T) ts"
    proof (rule filter_cong [OF refl])
      fix x assume "x \<in> set ts"
      from low [OF this] True assms
      show "(a \<le> x \<and> x \<le> a + T) = (t + d \<le> x \<and> x \<le> a + T)" by auto
    qed
    show ?thesis
    proof (cases "t + d \<le> a + T")
      case False
      then have "filter (\<lambda>x. t + d \<le> x \<and> x \<le> a + T) ts = []"
        by (auto simp: filter_empty_conv)
      with True eq nonneg show ?thesis by simp
    next
      case le: True
      define T' where "T' = a + T - (t + d)"
      have T': "0 \<le> T'" "a + T = (t + d) + T'" "T' \<le> T - d"
        using le True by (simp_all add: T'_def)
      have "int (length (filter (\<lambda>x. t + d \<le> x \<and> x \<le> (t + d) + T') ts)) \<le> \<lfloor>T' / d\<rfloor> + 1"
        by (rule Cons.IH [OF sep T'(1)])
      also have "\<lfloor>T' / d\<rfloor> \<le> \<lfloor>(T - d) / d\<rfloor>"
        using T'(3) assms by (intro floor_mono divide_right_mono) simp_all
      also have "(T - d) / d = T / d - 1"
        using assms by (simp add: diff_divide_distrib)
      finally have "int (length (filter (\<lambda>x. t + d \<le> x \<and> x \<le> a + T) ts)) \<le> \<lfloor>T / d\<rfloor>"
        using T'(2) by simp
      with True eq show ?thesis by simp
    qed
  qed
qed

lemma publish_times_append [simp]:
  "publish_times (cs @ cs') = publish_times cs @ publish_times cs'"
proof -
  have "published (cs @ cs') = published cs @ published cs'"
    by (induction cs rule: published.induct) simp_all
  then show ?thesis by (simp add: publish_times_def)
qed

lemma publish_times_Nil [simp]: "publish_times [] = []"
  by (simp add: publish_times_def)

lemma publish_times_Cons [simp]:
  "publish_times (Lock # cs) = publish_times cs"
  "publish_times (Unlock # cs) = publish_times cs"
  "publish_times (Publish m # cs) = seconds (stamp (header m)) # publish_times cs"
  by (simp_all add: publish_times_def)

lemma seconds_stamp: "seconds \<lparr>sec = sec t, nsec = nsec t\<rparr> = seconds t"
  by (simp add: seconds_def nanoseconds_def)

lemma seconds_copy_wrench [simp]:
  "seconds (stamp (header (copy_wrench s p))) = seconds (SimTime p)"
  by (simp add: copy_wrench_def Let_def seconds_stamp)

lemma publish_time_copy: "publish_times [Lock, Publish (copy_wrench s p), Unlock] = [seconds (SimTime p)]"
  by (simp add: publish_times_def copy_wrench_def Let_def seconds_stamp)

lemma step_rate: "update_rate (fst (step ev s)) = update_rate s"
proof (cases ev)
  case (WorldUpdateBegin p)
  then show ?thesis by (simp add: UpdateChild_def Let_def)
next
  case (Subscriber c)
  then show ?thesis by (cases c) (simp_all add: FTConnect_def FTDisconnect_def)
qed

text \<open>
  One callback: either nothing is published and the last sample time stays, or one
  message is published, a period (up to the rounding) after the last sample, and its
  time becomes the last sample time.
\<close>

lemma step_publish_times:
  assumes "update_rate s = Finite f" and "normal_period f"
  shows "(publish_times (snd (step ev s)) = [] \<and> last_time (fst (step ev s)) = last_time s)
     \<or> (\<exists>t. publish_times (snd (step ev s)) = [t]
           \<and> seconds (last_time s) + (1 - 1 / 2 ^ 50) / f \<le> t
           \<and> seconds (last_time (fst (step ev s))) = t)"
proof (cases ev)
  case (WorldUpdateBegin p)
  show ?thesis
  proof (cases "rate_limited s (SimTime p) \<or> ft_connect_count s = 0")
    case True
    then have "UpdateChild p s = (s, [])"
      by (auto simp: UpdateChild_def Let_def)
    with WorldUpdateBegin show ?thesis
      by (simp add: publish_times_def)
  next
    case False
    then have "UpdateChild p s =
       (s\<lparr>wrench_msg := copy_wrench s p, last_time := SimTime p\<rparr>,
        [Lock, Publish (copy_wrench s p), Unlock])"
      by (simp add: UpdateChild_publishes)
    moreover have "seconds (last_time s) + (1 - 1 / 2 ^ 50) / f \<le> seconds (SimTime p)"
      using gate_open_only_if [OF assms, of "SimTime p"] False by simp
    ultimately show ?thesis
      using WorldUpdateBegin by (simp add: publish_time_copy)
  qed
next
  case (Subscriber c)
  then show ?thesis
    by (cases c) (simp_all add: publish_times_def FTConnect_def FTDisconnect_def)
qed

lemma run_separated:
  "update_rate s = Finite f \<Longrightarrow> normal_period f \<Longrightarrow>
   separated ((1 - 1 / 2 ^ 50) / f) (seconds (last_time s)) (publish_times (snd (run es s)))"
proof (induction es arbitrary: s)
  case Nil
  then show ?case by (simp add: publish_times_def)
next
  case (Cons ev es)
  have r: "update_rate (fst (step ev s)) = Finite f"
    using Cons.prems by (simp add: step_rate)
  note IH = Cons.IH [OF r Cons.prems(2)]
  from step_publish_times [OF Cons.prems, of ev] show ?case
    using IH by auto
qed

text \<open>
  Against claim C4 as it is written. At 999.9999999999999 Hz, with a subscriber
  throughout and simulation steps 1 ms apart, every step publishes: the elapsed
  millisecond and the quotient \<open>1.0 / f\<close> are the same double. The window of one second
  from 0.001 s to 1.001 s holds 1001 samples; \<open>\<lfloor>T * f\<rfloor> + 1\<close> is 1000.
\<close>

lemma nanoseconds_tick_ms: "nanoseconds (SimTime (tick_ms k)) = int k * 10 ^ 6"
proof -
  have ns: "nanoseconds (SimTime (tick_ms k)) =
      int k div 1000 * 10 ^ 9 + int k mod 1000 * 10 ^ 6"
    by (simp add: tick_ms_def physics0_def nanoseconds_def)
  have "A * 10 ^ 9 + B * 10 ^ 6 = (A * 1000 + B) * 10 ^ 6" for A B :: int
    by simp
  from this [of "int k div 1000" "int k mod 1000"] show ?thesis
    by (simp only: ns div_mult_mod_eq)
qed

lemma run_ticks_ms:
  assumes "update_rate s = Finite fast_rate" and "ft_connect_count s \<noteq> 0"
    and "nanoseconds (last_time s) = int k * 10 ^ 6"
  shows "publish_times (snd (run (ticks_ms k n) s)) = map (\<lambda>j. real j / 1000) [Suc k..<Suc k + n]"
  using assms
proof (induction n arbitrary: k s)
  case 0
  then show ?case by (simp add: ticks_ms_def publish_times_def)
next
  case (Suc n)
  let ?p = "tick_ms (Suc k)"
  let ?s = "s\<lparr>wrench_msg := copy_wrench s ?p, last_time := SimTime ?p\<rparr>"
  have upt: "[Suc k..<Suc k + Suc n] = Suc k # [Suc (Suc k)..<Suc (Suc k) + n]"
    using upt_conv_Cons [of "Suc k" "Suc k + Suc n"] by (simp del: upt_Suc)
  have ticks: "ticks_ms k (Suc n) = WorldUpdateBegin ?p # ticks_ms (Suc k) n"
    by (simp only: ticks_ms_def upt list.map)
  have "nanoseconds (SimTime ?p) - nanoseconds (last_time s) = 1000000"
    by (simp add: nanoseconds_tick_ms Suc.prems(3) algebra_simps)
  then have "\<not> rate_limited s (SimTime ?p)"
    by (simp add: rate_limited_def Double_Time_minus Suc.prems(1) period_fast reading_ms
        del: one_over.simps)
  then have step: "UpdateChild ?p s = (?s, [Lock, Publish (copy_wrench s ?p), Unlock])"
    using Suc.prems(2) by (rule UpdateChild_publishes)
  have "publish_times (snd (run (ticks_ms (Suc k) n) ?s)) =
      map (\<lambda>j. real j / 1000) [Suc (Suc k)..<Suc (Suc k) + n]"
    by (rule Suc.IH) (simp_all add: Suc.prems nanoseconds_tick_ms)
  moreover have "seconds (SimTime ?p) = real (Suc k) / 1000"
    by (simp add: seconds_def nanoseconds_tick_ms)
  ultimately show ?case
    unfolding ticks upt by (simp add: step publish_time_copy del: upt_Suc)
qed

theorem samples_in_window_rounding:
  "update_rate (subscribed fast_rate) = Finite fast_rate
   \<and> ft_connect_count (fst (run (ticks_ms 0 1001) (subscribed fast_rate))) = 1
   \<and> int (length (filter (\<lambda>t. 1 / 1000 \<le> t \<and> t \<le> 1 / 1000 + 1)
              (publish_times (snd (run (ticks_ms 0 1001) (subscribed fast_rate)))))) = 1001
   \<and> \<lfloor>1 * fast_rate\<rfloor> + 1 = 1000"
proof -
  have times: "publish_times (snd (run (ticks_ms 0 1001) (subscribed fast_rate))) =
      map (\<lambda>j. real j / 1000) [Suc 0..<Suc 0 + 1001]"
    by (rule run_ticks_ms) (simp_all add: nanoseconds_def)
  have "filter (\<lambda>t. 1 / 1000 \<le> t \<and> t \<le> 1 / 1000 + 1)
          (map (\<lambda>j. real j / 1000) [Suc 0..<Suc 0 + 1001]) =
        map (\<lambda>j. real j / 1000) [Suc 0..<Suc 0 + 1001]"
    by (rule filter_True) auto
  then have len: "int (length (filter (\<lambda>t. 1 / 1000 \<le> t \<and> t \<le> 1 / 1000 + 1)
              (publish_times (snd (run (ticks_ms 0 1001) (subscribed fast_rate)))))) = 1001"
    unfolding times by simp
  have cnt: "ft_connect_count (fst (run (ticks_ms 0 1001) (subscribed fast_rate))) = 1"
    by (simp add: run_count subscribes_def unsubscribes_def ticks_ms_def filter_map o_def)
  have "\<lfloor>1 * fast_rate\<rfloor> + 1 = 1000"
    by (simp add: fast_rate_def)
  with len cnt show ?thesis by simp
qed

text \<open>
  Claim C4, amended. With a configured rate \<open>f > 0\<close> whose period is in the normal
  range, in any run of callbacks (simulation steps at any times, subscribers coming and
  going or present throughout), the messages published with a simulation time in a
  window \<open>[a, a + T]\<close> number at most \<open>\<lfloor>T * f / (1 - 2\<^sup>-\<^sup>5\<^sup>0)\<rfloor> + 1\<close>: the rate control
  compares rounded doubles, which lets two samples be closer than \<open>1 / f\<close> by a relative
  \<open>2\<^sup>-\<^sup>5\<^sup>0\<close> at most.
\<close>

theorem samples_in_window:
  assumes "update_rate s = Finite f" and "normal_period f" and "0 \<le> T"
  shows "int (length (filter (\<lambda>t. a \<le> t \<and> t \<le> a + T) (publish_times (snd (run es s)))))
     \<le> \<lfloor>T * f / (1 - 1 / 2 ^ 50)\<rfloor> + 1"
proof -
  have f: "0 < f" using assms(2) by (simp add: normal_period_def)
  then have "0 < (1 - 1 / 2 ^ 50) / f" by simp
  from separated_window [OF this run_separated [OF assms(1,2)] assms(3), of a es]
  have "int (length (filter (\<lambda>t. a \<le> t \<and> t \<le> a + T) (publish_times (snd (run es s)))))
     \<le> \<lfloor>T / ((1 - 1 / 2 ^ 50) / f)\<rfloor> + 1" .
  moreover have "T / ((1 - 1 / 2 ^ 50) / f) = T * f / (1 - 1 / 2 ^ 50)"
    by simp
  ultimately show ?thesis by (simp only:)
qed

text \<open>
  At 10 Hz, with steps at 0.1 s, 0.15 s and 0.2 s and a subscriber, messages go out at
  0.1 s and 0.2 s: the window from 0.1 s to 0.2 s holds two, which is the bound.
\<close>

lemma events1_times: "publish_times (snd (run events1 loaded0)) = [1 / 10, 1 / 5]"
proof -
  let ?s0 = "FTConnect loaded0"
  let ?p1 = "physics0 0 100000000"
  let ?s1 = "?s0\<lparr>wrench_msg := copy_wrench ?s0 ?p1, last_time := SimTime ?p1\<rparr>"
  let ?p2 = "physics0 0 150000000"
  let ?p3 = "physics0 0 200000000"
  have c: "ft_connect_count ?s0 \<noteq> 0" "ft_connect_count ?s1 \<noteq> 0"
    by (simp_all add: FTConnect_def)
  have r: "update_rate ?s0 = Finite 10" "update_rate ?s1 = Finite 10"
    "last_time ?s0 = \<lparr>sec = 0, nsec = 0\<rparr>"
    by (simp_all add: FTConnect_def)
  have "\<not> rate_limited ?s0 (SimTime ?p1)"
    by (simp add: rate_limited_def Double_Time_minus r period_10 physics0_def nanoseconds_def
        reading_100ms del: one_over.simps)
  then have 1: "UpdateChild ?p1 ?s0 = (?s1, [Lock, Publish (copy_wrench ?s0 ?p1), Unlock])"
    using c(1) by (rule UpdateChild_publishes)
  have "(1 - 1 / 2 ^ 50) / 10 \<le> seconds (SimTime ?p2) - seconds (last_time ?s1)"
    if "\<not> rate_limited ?s1 (SimTime ?p2)"
    using r(2) normal_period_10 that by (rule gate_open_only_if)
  then have "rate_limited ?s1 (SimTime ?p2)"
    by (auto simp: seconds_def nanoseconds_def physics0_def)
  then have 2: "UpdateChild ?p2 ?s1 = (?s1, [])"
    by (rule UpdateChild_limited)
  have "\<not> rate_limited ?s1 (SimTime ?p3)"
    by (simp add: rate_limited_def Double_Time_minus r period_10 physics0_def nanoseconds_def
        reading_100ms del: one_over.simps)
  then have 3: "UpdateChild ?p3 ?s1 =
      (?s1\<lparr>wrench_msg := copy_wrench ?s1 ?p3, last_time := SimTime ?p3\<rparr>,
       [Lock, Publish (copy_wrench ?s1 ?p3), Unlock])"
    using c(2) by (rule UpdateChild_publishes)
  have t: "seconds (SimTime ?p1) = 1 / 10" "seconds (SimTime ?p3) = 1 / 5"
    by (simp_all add: seconds_def nanoseconds_def physics0_def)
  show ?thesis
    by (simp add: events1_def 1 2 3 publish_time_copy t)
qed

theorem samples_in_window_witness:
  "update_rate loaded0 = Finite 10 \<and> normal_period 10
   \<and> publish_times (snd (run events1 loaded0)) = [1 / 10, 1 / 5]
   \<and> int (length (filter (\<lambda>t. 1 / 10 \<le> t \<and> t \<le> 1 / 10 + 1 / 10)
                      (publish_times (snd (run events1 loaded0)))))
       \<le> \<lfloor>1 / 10 * 10 / (1 - 1 / 2 ^ 50)\<rfloor> + 1
   \<and> length (filter (\<lambda>t. 1 / 10 \<le> t \<and> t \<le> 1 / 10 + 1 / 10)
                 (publish_times (snd (run events1 loaded0)))) = 2
   \<and> \<lfloor>1 / 10 * 10 / (1 - 1 / 2 ^ 50) :: real\<rfloor> + 1 = 2"
proof -
  have r: "update_rate loaded0 = Finite 10" by simp
  have T: "(0::real) \<le> 1 / 10" by simp
  have fl: "\<lfloor>1 / 10 * 10 / (1 - 1 / 2 ^ 50) :: real\<rfloor> + 1 = 2"
    by simp
  show ?thesis
    using r normal_period_10 fl
      samples_in_window [OF r normal_period_10 T, of "1 / 10" events1]
    by (simp add: events1_times)
qed

subsection \<open>Loading\<close>

lemma Load_fails:
  assumes "validation_fails h e"
  shows "\<exists>cs. snd (Load h e s) = cs @ [ROS_FATAL] \<and> set cs \<subseteq> {ROS_INFO, ROS_DEBUG}"
    and "rosnode (fst (Load h e s)) = rosnode s"
    and "pub (fst (Load h e s)) = pub s"
    and "callback_queue_thread (fst (Load h e s)) = callback_queue_thread s"
    and "update_connection (fst (Load h e s)) = update_connection s"
    and "queue_enabled (fst (Load h e s)) = queue_enabled s"
    and "queue_pending (fst (Load h e s)) = queue_pending s"
  using assms
  by (auto simp: validation_fails_def Load_def Let_def split: option.splits)


text \<open>
  Claim C6. On every configuration on which validation fails (no joint name, a joint
  the model does not have, no topic name, or ROS not initialised), \<open>Load\<close> returns
  right after a fatal log and wires nothing: it registers no per-step callback, starts no
  thread, creates no node handle and advertises no topic, and the connection, the thread,
  the node pointer and the publisher are what they were before.
\<close>

theorem Load_failure_no_wiring:
  assumes "validation_fails h e"
  shows "ROS_FATAL \<in> set (snd (Load h e s))
     \<and> last (snd (Load h e s)) = ROS_FATAL
     \<and> \<not> list_ex wiring_call (snd (Load h e s))
     \<and> ConnectWorldUpdateBegin \<notin> set (snd (Load h e s))
     \<and> ThreadStart \<notin> set (snd (Load h e s))
     \<and> (\<forall>n. NewNodeHandle n \<notin> set (snd (Load h e s)))
     \<and> (\<forall>t. Advertise t \<notin> set (snd (Load h e s)))
     \<and> update_connection (fst (Load h e s)) = update_connection s
     \<and> callback_queue_thread (fst (Load h e s)) = callback_queue_thread s
     \<and> rosnode (fst (Load h e s)) = rosnode s
     \<and> pub (fst (Load h e s)) = pub s"
proof -
  from Load_fails(1) [OF assms, of s] obtain cs
    where cs: "snd (Load h e s) = cs @ [ROS_FATAL]" "set cs \<subseteq> {ROS_INFO, ROS_DEBUG}"
    by blast
  have "\<not> list_ex wiring_call cs"
    using cs(2) by (auto simp: list_ex_iff)
  with cs show ?thesis
    using Load_fails(2-5) [OF assms, of s] by (auto simp: list_ex_iff)
qed

text \<open>Without a topic name, \<open>Load\<close> logs the frame, then the fatal message, and stops.\<close>

theorem Load_failure_no_wiring_witness:
  "validation_fails host0 (sdf0\<lparr>topicName := None\<rparr>)
   \<and> snd (Load host0 (sdf0\<lparr>topicName := None\<rparr>) (GazeboRosFT_ctor memory0)) =
       [ROS_INFO, ROS_FATAL :: real call]
   \<and> \<not> list_ex wiring_call (snd (Load host0 (sdf0\<lparr>topicName := None\<rparr>) (GazeboRosFT_ctor memory0)))
   \<and> rosnode (fst (Load host0 (sdf0\<lparr>topicName := None\<rparr>) (GazeboRosFT_ctor memory0))) =
       Uninitialised"
proof -
  have a: "validation_fails host0 (sdf0\<lparr>topicName := None\<rparr>)"
    by (simp add: validation_fails_def host0_def sdf0_def)
  have b: "snd (Load host0 (sdf0\<lparr>topicName := None\<rparr>) (GazeboRosFT_ctor memory0)) =
       [ROS_INFO, ROS_FATAL :: real call]"
    by (simp add: Load_def host0_def sdf0_def)
  have c: "rosnode (GazeboRosFT_ctor memory0) = Uninitialised"
    by (simp add: GazeboRosFT_ctor_def)
  show ?thesis
    using a b c Load_failure_no_wiring [OF a, of "GazeboRosFT_ctor memory0"] by simp
qed

subsection \<open>The callbacks leave the handles alone\<close>

lemma invoke_handles:
  "rosnode (invoke c s) = rosnode s"
  "callback_queue_thread (invoke c s) = callback_queue_thread s"
  "update_connection (invoke c s) = update_connection s"
  by (cases c; simp add: FTConnect_def FTDisconnect_def)+




subsection \<open>The delivery thread's loop\<close>

lemma callAvailable_rosnode: "rosnode (callAvailable s) = rosnode s"
proof -
  have "rosnode (fold invoke cs s') = rosnode s'" for cs and s' :: "'a GazeboRosFT"
    by (induction cs arbitrary: s') (simp_all add: invoke_handles)
  then show ?thesis by (simp add: callAvailable_def)
qed

text \<open>The loop returns only when the node is no longer ok, and then at once.\<close>

lemma QueueThread_returns:
  assumes "QueueThread s = Some s'"
  shows "\<exists>n. rosnode s = Valid n \<and> \<not> ok n"
proof (rule QueueThread.raw_induct
    [where P = "\<lambda>s s'. \<exists>n. rosnode s = Valid n \<and> \<not> ok n", OF _ assms])
  fix f :: "'a GazeboRosFT \<Rightarrow> 'a GazeboRosFT option" and t t' :: "'a GazeboRosFT"
  assume IH: "\<And>x y. f x = Some y \<Longrightarrow> \<exists>n. rosnode x = Valid n \<and> \<not> ok n"
    and body: "(case rosnode t of
                  Valid n \<Rightarrow> if ok n then f (callAvailable t) else Some t
                | _ \<Rightarrow> None) = Some t'"
  show "\<exists>n. rosnode t = Valid n \<and> \<not> ok n"
  proof (cases "rosnode t")
    case (Valid n)
    show ?thesis
    proof (cases "ok n")
      case True
      with Valid body have "f (callAvailable t) = Some t'" by simp
      from IH [OF this] Valid True show ?thesis
        by (simp add: callAvailable_rosnode)
    next
      case False
      with Valid show ?thesis by simp
    qed
  qed (use body in simp_all)
qed

lemma QueueThread_shut:
  "rosnode s = Valid n \<Longrightarrow> \<not> ok n \<Longrightarrow> QueueThread s = Some s"
  by (subst QueueThread.simps) simp

text \<open>
  Why the node is shut down before the thread is joined: a join on the running thread
  while the node is still ok does not return.
\<close>

lemma join_before_shutdown:
  "callback_queue_thread s = Running \<Longrightarrow> rosnode s = Valid n \<Longrightarrow> ok n \<Longrightarrow> join s = None"
  using QueueThread_returns [of s] by (cases "QueueThread s") (auto simp: join_def)

subsection \<open>The destructor\<close>

text \<open>On a live node handle the destructor makes its six calls and returns.\<close>

lemma dtor_valid:
  assumes "rosnode s = Valid n"
  shows "GazeboRosFT_dtor s =
     ([DisconnectWorldUpdateBegin (update_connection s), QueueClear, QueueDisable,
       NodeShutdown (Valid n), ThreadJoin (callback_queue_thread s),
       NodeDelete (Valid (n\<lparr>ok := False\<rparr>))],
      Returns
        (s\<lparr>update_connection := (case update_connection s of Null \<Rightarrow> Null | _ \<Rightarrow> Disconnected),
           queue_pending := [], queue_enabled := False, rosnode := Deleted,
           callback_queue_thread :=
             (case callback_queue_thread s of Running \<Rightarrow> Joined | t \<Rightarrow> t)\<rparr>))"
  using assms
  by (cases "callback_queue_thread s")
    (simp_all add: GazeboRosFT_dtor_def join_def QueueThread_shut)

text \<open>
  On a node pointer that was never assigned, or whose node handle was deleted, it gets
  as far as \<^verbatim>\<open>rosnode_->shutdown()\<close>.
\<close>

lemma dtor_invalid:
  assumes "\<And>n. rosnode s \<noteq> Valid n"
  shows "GazeboRosFT_dtor s =
     ([DisconnectWorldUpdateBegin (update_connection s), QueueClear, QueueDisable],
      Undefined_behaviour (NodeShutdown (rosnode s)))"
proof (cases "rosnode s")
  case (Valid n)
  with assms show ?thesis by blast
qed (simp_all add: GazeboRosFT_dtor_def)

lemma dtor_loaded0:
  "GazeboRosFT_dtor loaded0 =
     ([DisconnectWorldUpdateBegin Connected, QueueClear, QueueDisable,
       NodeShutdown (Valid \<lparr>ns = ''robot/'', ok = True\<rparr>), ThreadJoin Running,
       NodeDelete (Valid \<lparr>ns = ''robot/'', ok = False\<rparr>)],
      Returns stopped0)"
  by (simp add: loaded0_eq stopped0_def dtor_valid [where n = "\<lparr>ns = ''robot/'', ok = True\<rparr>"])


lemma Load_failed_handles:
  assumes "validation_fails h e"
  shows "rosnode (fst (Load h e (GazeboRosFT_ctor m))) = Uninitialised"
    and "callback_queue_thread (fst (Load h e (GazeboRosFT_ctor m))) = Not_a_Thread"
    and "update_connection (fst (Load h e (GazeboRosFT_ctor m))) = Null"
  by (simp_all add: Load_fails(2,4,5) [OF assms] GazeboRosFT_ctor_def)

lemma dtor_after_failed_Load:
  assumes "validation_fails h e"
  shows "GazeboRosFT_dtor (fst (Load h e (GazeboRosFT_ctor m))) =
     ([DisconnectWorldUpdateBegin Null, QueueClear, QueueDisable],
      Undefined_behaviour (NodeShutdown Uninitialised))"
  by (simp add: dtor_invalid Load_failed_handles [OF assms])

lemma validation_fails_examples:
  "validation_fails host0 (sdf0\<lparr>jointName := None\<rparr>)"
  "validation_fails host0 (sdf0\<lparr>jointName := Some ''elbow''\<rparr>)"
  "validation_fails host0 (sdf0\<lparr>topicName := None\<rparr>)"
  "validation_fails (host0\<lparr>isInitialized := False\<rparr>) sdf0"
  "\<not> validation_fails host0 sdf0"
  by (simp_all add: validation_fails_def host0_def sdf0_def)

text \<open>
  Claim C7, where the code departs from it. The statements of the destructor are in the
  order of the claim, and on the loaded instance \<open>loaded0\<close> the six calls are made in that
  order. On the instance whose \<open>Load\<close> found no joint name the destructor performs the
  first two steps only: its third call, \<^verbatim>\<open>rosnode_->shutdown()\<close>, goes through the pointer
  that was never assigned, and the join and the delete are not reached.
\<close>

theorem teardown_strict_order:
  "GazeboRosFT_dtor loaded0 =
     ([DisconnectWorldUpdateBegin Connected, QueueClear, QueueDisable,
       NodeShutdown (Valid \<lparr>ns = ''robot/'', ok = True\<rparr>), ThreadJoin Running,
       NodeDelete (Valid \<lparr>ns = ''robot/'', ok = False\<rparr>)],
      Returns stopped0)
   \<and> map step_of_call (fst (GazeboRosFT_dtor loaded0)) = teardown_order
   \<and> rosnode (fst (Load host0 (sdf0\<lparr>jointName := None\<rparr>) (GazeboRosFT_ctor memory0))) =
       Uninitialised
   \<and> GazeboRosFT_dtor (fst (Load host0 (sdf0\<lparr>jointName := None\<rparr>) (GazeboRosFT_ctor memory0))) =
       ([DisconnectWorldUpdateBegin Null, QueueClear, QueueDisable],
        Undefined_behaviour (NodeShutdown Uninitialised))
   \<and> map step_of_call
        (fst (GazeboRosFT_dtor
               (fst (Load host0 (sdf0\<lparr>jointName := None\<rparr>) (GazeboRosFT_ctor memory0))))) =
       map Some [DeregisterTick, DisableQueue, DisableQueue]"
  by (simp add: dtor_loaded0 teardown_order_def
      dtor_after_failed_Load [OF validation_fails_examples(1)]
      Load_failed_handles(1) [OF validation_fails_examples(1)])







end
